theory Spec2Isabelle
  imports Main "HOL-Library.Sublist"
begin

section \<open>Strings of the host language\<close>

text \<open>
  The program is TypeScript. Its strings are modelled as \<^typ>\<open>string\<close>, one
  \<^typ>\<open>char\<close> per code unit; code units above 255 are outside the model. The
  helpers below are the string methods and regular-expression classes the modelled
  functions call.
\<close>

definition isSpace :: "char \<Rightarrow> bool" where
  \<comment> \<open>the class \<open>\s\<close>, which is also what \<open>trim\<close> strips: TAB, LF, VT, FF, CR, space, NBSP\<close>
  "isSpace c = (of_char c \<in> {9, 10, 11, 12, 13, 32, 160 :: nat})"

definition isDigit :: "char \<Rightarrow> bool" where
  \<comment> \<open>the class \<open>\d\<close>\<close>
  "isDigit c = (48 \<le> (of_char c :: nat) \<and> (of_char c :: nat) \<le> 57)"

definition trimStart :: "string \<Rightarrow> string" where
  "trimStart s = dropWhile isSpace s"

definition trimEnd :: "string \<Rightarrow> string" where
  "trimEnd s = rev (dropWhile isSpace (rev s))"

definition trim :: "string \<Rightarrow> string" where
  "trim s = trimEnd (trimStart s)"

definition lowerChar :: "char \<Rightarrow> char" where
  \<comment> \<open>\<open>A-Z\<close> and the Latin-1 capitals (without the multiplication sign) move up by 32\<close>
  "lowerChar c =
     (let n = (of_char c :: nat)
      in if (65 \<le> n \<and> n \<le> 90) \<or> (192 \<le> n \<and> n \<le> 222 \<and> n \<noteq> 215)
         then char_of (n + 32) else c)"

definition toLowerCase :: "string \<Rightarrow> string" where
  "toLowerCase s = map lowerChar s"

definition digitVal :: "char \<Rightarrow> int" where
  "digitVal c = int (of_char c) - 48"

definition digitsVal :: "string \<Rightarrow> int" where
  \<comment> \<open>value of a run of decimal digits, most significant first\<close>
  "digitsVal ds = foldl (\<lambda>acc c. 10 * acc + digitVal c) 0 ds"

definition parseInt :: "string \<Rightarrow> int" where
  \<comment> \<open>\<open>parseInt(s, 10)\<close> on the strings the callers pass: an optional sign, then digits\<close>
  "parseInt s =
     (case s of
        [] \<Rightarrow> 0
      | c # r \<Rightarrow> if c = CHR ''-'' then - digitsVal (takeWhile isDigit r)
                 else if c = CHR ''+'' then digitsVal (takeWhile isDigit r)
                 else digitsVal (takeWhile isDigit s))"

definition js_rem :: "int \<Rightarrow> int \<Rightarrow> int" where
  \<comment> \<open>the operator \<open>%\<close>: the remainder takes the sign of the dividend\<close>
  "js_rem a b = sgn a * (\<bar>a\<bar> mod \<bar>b\<bar>)"

section \<open>The An+B evaluator\<close>

definition isIntegerLiteral :: "string \<Rightarrow> bool" where
  \<comment> \<open>\<open>/^-?\d+$/\<close>\<close>
  "isIntegerLiteral s =
     (let r = (case s of [] \<Rightarrow> [] | c # t \<Rightarrow> if c = CHR ''-'' then t else s)
      in r \<noteq> [] \<and> list_all isDigit r)"

definition matchOffset :: "string \<Rightarrow> string option option" where
  \<comment> \<open>the tail \<open>([+-]\s*\d+)?$\<close>: \<open>None\<close> is no match, \<open>Some None\<close> the group unset\<close>
  "matchOffset t =
     (case t of
        [] \<Rightarrow> Some None
      | c # r \<Rightarrow>
          if c = CHR ''+'' \<or> c = CHR ''-'' then
            (let ds = dropWhile isSpace r
             in if ds \<noteq> [] \<and> list_all isDigit ds then Some (Some t) else None)
          else None)"

definition matchAnB :: "string \<Rightarrow> (string \<times> string option) option" where
  \<comment> \<open>\<open>/^(-?\d*)n\s*([+-]\s*\d+)?$/\<close>, returning the two groups\<close>
  "matchAnB s =
     (let sign = (case s of [] \<Rightarrow> [] | c # t \<Rightarrow> if c = CHR ''-'' then [c] else []);
          r = drop (length sign) s;
          ds = takeWhile isDigit r;
          r' = dropWhile isDigit r
      in case r' of
           [] \<Rightarrow> None
         | c # t \<Rightarrow>
             if c = CHR ''n'' then
               (case matchOffset (dropWhile isSpace t) of
                  None \<Rightarrow> None
                | Some g2 \<Rightarrow> Some (sign @ ds, g2))
             else None)"

definition matchesAnPlusB :: "string \<Rightarrow> int \<Rightarrow> bool" where
  "matchesAnPlusB expr pos =
     (let s = toLowerCase (trim expr)
      in if s = ''odd'' then js_rem pos 2 = 1
         else if s = ''even'' then js_rem pos 2 = 0
         else if isIntegerLiteral s then pos = parseInt s
         else
           (case matchAnB s of
              None \<Rightarrow> True
            | Some (m1, m2) \<Rightarrow>
                (let a = (if m1 = '''' \<or> m1 = ''+'' then 1
                          else if m1 = ''-'' then - 1 else parseInt m1);
                     b = (case m2 of
                            None \<Rightarrow> 0
                          | Some g \<Rightarrow> parseInt (filter (\<lambda>c. \<not> isSpace c) g))
                 in if a = 0 then pos = b
                    else
                      (let remainder = pos - b
                       in if remainder = 0 then True
                          else if a > 0 then remainder > 0 \<and> js_rem remainder a = 0
                          else remainder \<le> 0 \<and> js_rem remainder a = 0))))"

section \<open>Templates and selectors\<close>

text \<open>
  A template node is the record that the template parser builds: the tag, the id, the
  classes, the static attributes, the children and the place in a conditional chain
  (chain id and branch index). The source holds references to nodes and walks up through
  the \<open>parent\<close> field. Here a reference is a value of \<open>el\<close>: the node, its index
  among its siblings and the reference of its parent. Two references denote the same
  object of the source exactly when they are equal, so \<open>indexOf\<close>, \<open>===\<close> and
  \<open>Set.has\<close> on nodes are tests of equality.

  A selector is the syntax tree that the selector parser, a library, returns; the tree is
  the input of the functions below. A pseudo node carries the list of its arguments,
  which is empty for a pseudo-class written without parentheses.
\<close>

datatype attr_value = AttrTrue | AttrString string

datatype TemplateNode = TemplateNode
  (tag: string)
  (node_id: "string option")
  (classes: "string list")
  (attributes: "(string \<times> attr_value) list")
  (children: "TemplateNode list")
  (conditional: "(int \<times> int) option")

datatype el = El (node: TemplateNode) (position: nat) (parent: "el option")

definition childrenOf :: "el \<Rightarrow> el list" where
  "childrenOf e = map (\<lambda>(i, c). El c i (Some e)) (enumerate 0 (children (node e)))"

fun ancestors :: "el \<Rightarrow> el list" where
  "ancestors (El n i None) = []"
| "ancestors (El n i (Some p)) = p # ancestors p"

fun indexOf :: "'a list \<Rightarrow> 'a \<Rightarrow> int" where
  "indexOf [] x = - 1"
| "indexOf (y # ys) x = (if y = x then 0 else (let i = indexOf ys x in if i < 0 then - 1 else i + 1))"

datatype SelectorNode =
    Universal
  | Tag string
  | Class string
  | Id string
  | Attribute string "string option" "string option"
  | Pseudo string "SelectorNode list"
  | Combinator string
  | Nesting
  | Selector string "SelectorNode list"
  | Comment string
  | StringNode string

record CombinatorSegment =
  combinator :: string
  parts :: "SelectorNode list"

fun splitLoop :: "SelectorNode list \<Rightarrow> CombinatorSegment list \<Rightarrow> string \<Rightarrow> SelectorNode list \<Rightarrow> CombinatorSegment list" where
  "splitLoop [] segments currentCombinator currentParts =
     (if currentParts \<noteq> [] then segments @ [\<lparr>combinator = currentCombinator, parts = currentParts\<rparr>] else segments)"
| "splitLoop (n # ns) segments currentCombinator currentParts =
     (case n of
        Combinator v \<Rightarrow>
          (if currentParts \<noteq> []
           then splitLoop ns (segments @ [\<lparr>combinator = currentCombinator, parts = currentParts\<rparr>]) (trim v) []
           else splitLoop ns segments (trim v) currentParts)
      | Nesting \<Rightarrow> splitLoop ns segments currentCombinator currentParts
      | _ \<Rightarrow> splitLoop ns segments currentCombinator (currentParts @ [n]))"

definition splitIntoCombinatorSegments :: "SelectorNode list \<Rightarrow> CombinatorSegment list" where
  "splitIntoCombinatorSegments nodes = splitLoop nodes [] '' '' []"

function splitWsLoop :: "string \<Rightarrow> string \<Rightarrow> string list" where
  "splitWsLoop cur [] = [cur]"
| "splitWsLoop cur (c # cs) =
     (if isSpace c then cur # splitWsLoop [] (dropWhile isSpace cs)
      else splitWsLoop (cur @ [c]) cs)"
  by pat_completeness auto
termination
  by (relation "measure (\<lambda>(cur, s). length s)")
     (auto simp: length_dropWhile_le less_Suc_eq_le)

definition splitWhitespace :: "string \<Rightarrow> string list" where
  "splitWhitespace s = splitWsLoop [] s"

definition RUNTIME_PSEUDOS :: "string list" where
  "RUNTIME_PSEUDOS =
     ['':hover'', '':focus'', '':active'', '':visited'', '':link'', '':focus-within'',
      '':focus-visible'', '':checked'', '':disabled'', '':enabled'', '':required'',
      '':optional'', '':valid'', '':invalid'', '':in-range'', '':out-of-range'',
      '':placeholder-shown'', '':autofill'', '':read-only'', '':read-write'', '':target'',
      '':scope'', '':defined'', '':fullscreen'', '':modal'', '':picture-in-picture'',
      '':any-link'', '':local-link'', '':default'', '':indeterminate'']"

definition getRuntimeSiblings :: "el \<Rightarrow> el list" where
  "getRuntimeSiblings e =
     (case parent e of
        None \<Rightarrow> [e]
      | Some p \<Rightarrow>
          filter (\<lambda>sib.
            (case (conditional (node e), conditional (node sib)) of
               (Some (chainE, branchE), Some (chainS, branchS)) \<Rightarrow>
                 chainE \<noteq> chainS \<or> branchE = branchS
             | _ \<Rightarrow> True)) (childrenOf p))"

definition extractPseudoArg :: "SelectorNode list \<Rightarrow> string option" where
  "extractPseudoArg nodes =
     (case nodes of
        [] \<Rightarrow> None
      | inner # _ \<Rightarrow> (case inner of Selector text _ \<Rightarrow> Some (trim text) | _ \<Rightarrow> None))"

definition matchStructuralPseudo :: "el \<Rightarrow> string \<Rightarrow> SelectorNode list \<Rightarrow> bool" where
  "matchStructuralPseudo e v nodes =
     (if v \<in> set RUNTIME_PSEUDOS then True
      else
        (let siblings = getRuntimeSiblings e;
             idx = indexOf siblings e
         in if v = '':first-child'' then idx = 0
            else if v = '':last-child'' then idx = int (length siblings) - 1
            else if v = '':only-child'' then length siblings = 1
            else if v = '':first-of-type'' then
              find (\<lambda>s. tag (node s) = tag (node e)) siblings = Some e
            else if v = '':last-of-type'' then
              find (\<lambda>s. tag (node s) = tag (node e)) (rev siblings) = Some e
            else if v = '':only-of-type'' then
              length (filter (\<lambda>s. tag (node s) = tag (node e)) siblings) = 1
            else if v = '':root'' then parent e = None
            else if v = '':empty'' then children (node e) = []
            else if v \<in> {'':nth-child'', '':nth-last-child'', '':nth-of-type'', '':nth-last-of-type''} then
              (case extractPseudoArg nodes of
                 None \<Rightarrow> True
               | Some arg \<Rightarrow>
                   if arg = [] then True
                   else
                     (let pool = (if v = '':nth-of-type'' \<or> v = '':nth-last-of-type''
                                  then filter (\<lambda>s. tag (node s) = tag (node e)) siblings
                                  else siblings);
                          pos = (if v = '':nth-last-child'' \<or> v = '':nth-last-of-type''
                                 then int (length pool) - indexOf pool e
                                 else indexOf pool e + 1)
                      in matchesAnPlusB arg pos))
            else True))"

definition isConditionalAlternative :: "el \<Rightarrow> el \<Rightarrow> bool" where
  "isConditionalAlternative a b =
     (case (conditional (node a), conditional (node b)) of
        (Some (chainA, branchA), Some (chainB, branchB)) \<Rightarrow> chainA = chainB \<and> branchA \<noteq> branchB
      | _ \<Rightarrow> False)"

section \<open>Raised errors\<close>

text \<open>
  A call of the matching engine can raise a \<open>TypeError\<close>. A function that can raise
  returns a value of \<open>error + 'a\<close>, \<open>Inl\<close> for the raise. The combinators are the
  array methods and loops of the source, for a callback that can raise: the first raise
  ends the loop and is the result.
\<close>

datatype error = TypeError

fun filterE :: "('a \<Rightarrow> error + bool) \<Rightarrow> 'a list \<Rightarrow> error + 'a list" where
  \<comment> \<open>\<open>xs.filter(f)\<close> with a callback that may raise: the first raise ends the call\<close>
  "filterE f [] = Inr []"
| "filterE f (x # xs) =
     (case f x of
        Inl err \<Rightarrow> Inl err
      | Inr b \<Rightarrow>
          (case filterE f xs of
             Inl err \<Rightarrow> Inl err
           | Inr ys \<Rightarrow> Inr (if b then x # ys else ys)))"

fun someE :: "('a \<Rightarrow> error + bool) \<Rightarrow> 'a list \<Rightarrow> error + bool" where
  \<comment> \<open>a loop over \<open>xs\<close> that leaves with \<open>true\<close> at the first element whose test holds\<close>
  "someE f [] = Inr False"
| "someE f (x # xs) =
     (case f x of
        Inl err \<Rightarrow> Inl err
      | Inr b \<Rightarrow> if b then Inr True else someE f xs)"

fun foldE :: "('b \<Rightarrow> 'a \<Rightarrow> error + 'b) \<Rightarrow> 'b \<Rightarrow> 'a list \<Rightarrow> error + 'b" where
  \<comment> \<open>a \<open>for (const x of xs)\<close> loop that updates an accumulator and may raise\<close>
  "foldE f acc [] = Inr acc"
| "foldE f acc (x # xs) =
     (case f acc x of
        Inl err \<Rightarrow> Inl err
      | Inr acc' \<Rightarrow> foldE f acc' xs)"

fun concatMapE :: "('a \<Rightarrow> error + 'b list) \<Rightarrow> 'a list \<Rightarrow> error + 'b list" where
  \<comment> \<open>\<open>for (const x of xs) next.push(...f(x))\<close>\<close>
  "concatMapE f [] = Inr []"
| "concatMapE f (x # xs) =
     (case f x of
        Inl err \<Rightarrow> Inl err
      | Inr ys \<Rightarrow>
          (case concatMapE f xs of
             Inl err \<Rightarrow> Inl err
           | Inr zs \<Rightarrow> Inr (ys @ zs)))"

lemma filterE_cong [fundef_cong]:
  "xs = ys \<Longrightarrow> (\<And>x. x \<in> set ys \<Longrightarrow> f x = g x) \<Longrightarrow> filterE f xs = filterE g ys"
  by (induction ys arbitrary: xs) (auto split: sum.splits)

lemma someE_cong [fundef_cong]:
  "xs = ys \<Longrightarrow> (\<And>x. x \<in> set ys \<Longrightarrow> f x = g x) \<Longrightarrow> someE f xs = someE g ys"
  by (induction ys arbitrary: xs) (auto split: sum.splits)

lemma foldE_cong [fundef_cong]:
  "xs = ys \<Longrightarrow> a = b \<Longrightarrow> (\<And>acc x. x \<in> set ys \<Longrightarrow> f acc x = g acc x)
   \<Longrightarrow> foldE f a xs = foldE g b ys"
  by (induction ys arbitrary: xs a b) (auto split: sum.splits)

lemma concatMapE_cong [fundef_cong]:
  "xs = ys \<Longrightarrow> (\<And>x. x \<in> set ys \<Longrightarrow> f x = g x) \<Longrightarrow> concatMapE f xs = concatMapE g ys"
  by (induction ys arbitrary: xs) (auto split: sum.splits)

section \<open>Attributes\<close>

text \<open>
  The attribute object of a node is created by \<open>{}\<close> and filled by assignment, one own
  property for each static attribute, with a string or \<open>true\<close> as value. The list
  \<open>attributes\<close> holds these own properties. The key test of the source is the operator
  \<open>in\<close>, which also finds the keys that every such object inherits; reading an
  inherited key gives a function or an object, on which the string methods that the
  operators call do not exist.
\<close>

definition OBJECT_PROTOTYPE_KEYS :: "string list" where
  \<comment> \<open>the properties of \<open>Object.prototype\<close>, which an object created by \<open>{}\<close> inherits\<close>
  "OBJECT_PROTOTYPE_KEYS =
     [''constructor'', ''__defineGetter__'', ''__defineSetter__'', ''hasOwnProperty'',
      ''__lookupGetter__'', ''__lookupSetter__'', ''isPrototypeOf'', ''propertyIsEnumerable'',
      ''toString'', ''valueOf'', ''__proto__'', ''toLocaleString'']"

datatype property = OwnString string | OwnTrue | Inherited

definition hasProperty :: "(string \<times> attr_value) list \<Rightarrow> string \<Rightarrow> bool" where
  \<comment> \<open>\<open>key in obj\<close>: own keys and the keys found along the prototype chain\<close>
  "hasProperty obj k = (k \<in> fst ` set obj \<or> k \<in> set OBJECT_PROTOTYPE_KEYS)"

definition getProperty :: "(string \<times> attr_value) list \<Rightarrow> string \<Rightarrow> property" where
  \<comment> \<open>\<open>obj[key]\<close> for a key with \<open>key in obj\<close>: an own value shadows the inherited one,
      and every inherited value is a function or an object, never a string or \<open>true\<close>\<close>
  "getProperty obj k =
     (case map_of obj k of
        Some (AttrString s) \<Rightarrow> OwnString s
      | Some AttrTrue \<Rightarrow> OwnTrue
      | None \<Rightarrow> Inherited)"

definition matchesAttribute ::
  "el \<Rightarrow> string \<Rightarrow> string option \<Rightarrow> string option \<Rightarrow> error + bool" where
  \<comment> \<open>the \<open>attribute\<close> case of \<open>matchesCompound\<close>: \<open>Inr False\<close> is its \<open>return false\<close>,
      \<open>Inr True\<close> its \<open>break\<close>, \<open>Inl TypeError\<close> the call of a string method on a value
      that has none\<close>
  "matchesAttribute e attrName attrOp attrVal =
     (if \<not> hasProperty (attributes (node e)) attrName then Inr False
      else
        (case (attrOp, attrVal) of
           (Some op, Some v) \<Rightarrow>
             if op = [] then Inr True
             else
               (case getProperty (attributes (node e)) attrName of
                  OwnTrue \<Rightarrow> Inr False
                | OwnString s \<Rightarrow>
                    if op = ''='' then Inr (s = v)
                    else if op = ''^='' then Inr (prefix v s)
                    else if op = ''$='' then Inr (suffix v s)
                    else if op = ''*='' then Inr (sublist v s)
                    else if op = ''~='' then Inr (v \<in> set (splitWhitespace s))
                    else if op = ''|='' then Inr (s = v \<or> prefix (v @ ''-'') s)
                    else Inr True
                | Inherited \<Rightarrow>
                    if op = ''='' then Inr False
                    else if op = ''^='' \<or> op = ''$='' \<or> op = ''*='' \<or> op = ''~=''
                            \<or> op = ''|='' then Inl TypeError
                    else Inr True)
         | _ \<Rightarrow> Inr True))"

section \<open>The matching engine\<close>

text \<open>
  The functions of the engine call each other, so they are defined together. The
  measure below orders the calls: the size of the selector, then the kind of function,
  then the size of the nodes or the index of the segment. \<open>matchSelectorPart\<close> and
  \<open>matchesHasSelector\<close> end with the same loop over the segments after the first one;
  that loop is \<open>chainSegments\<close>. \<open>matchBackwards\<close> reads \<open>segments[segIdx]\<close>, which is
  \<open>undefined\<close> for an index past the end, and reading a property of it raises.
\<close>

definition segsSize :: "CombinatorSegment list \<Rightarrow> nat" where
  "segsSize segs = sum_list (map (\<lambda>s. size_list size (parts s)) segs)"

definition forestSize :: "el list \<Rightarrow> nat" where
  "forestSize es = sum_list (map (\<lambda>e. size (node e)) es)"

fun engineMeasure ::
  "((el \<times> SelectorNode list + el \<times> SelectorNode list)
     + (el \<times> SelectorNode list + el \<times> CombinatorSegment list \<times> nat))
   + ((el list \<times> SelectorNode list + el list \<times> SelectorNode list)
     + (el list \<times> SelectorNode list + el list \<times> CombinatorSegment list))
   \<Rightarrow> nat \<times> nat \<times> nat" where
  "engineMeasure (Inl (Inl (Inl (e, ps)))) = (size_list size ps, 0, 0)"
| "engineMeasure (Inl (Inl (Inr (e, ns)))) = (size_list size ns, 3, 0)"
| "engineMeasure (Inl (Inr (Inl (e, ns)))) = (size_list size ns, 2, 0)"
| "engineMeasure (Inl (Inr (Inr (e, segs, i)))) = (segsSize segs, 1, i)"
| "engineMeasure (Inr (Inl (Inl (es, ps)))) = (size_list size ps, 1, forestSize es)"
| "engineMeasure (Inr (Inl (Inr (es, ps)))) = (size_list size ps, 1, 0)"
| "engineMeasure (Inr (Inr (Inl (es, ps)))) = (size_list size ps, 1, 0)"
| "engineMeasure (Inr (Inr (Inr (es, segs)))) = (segsSize segs, 2, length segs)"

lemma segsSize_splitLoop:
  "segsSize (splitLoop ns segs comb cur) \<le> segsSize segs + size_list size cur + size_list size ns"
proof (induction ns arbitrary: segs comb cur)
  case Nil
  show ?case by (simp add: segsSize_def)
next
  case (Cons n ns)
  have A: "segsSize (splitLoop ns segs comb (cur @ [n]))
           \<le> segsSize segs + size_list size cur + size_list size (n # ns)"
    using Cons.IH[of segs comb "cur @ [n]"] by simp
  have B: "segsSize (splitLoop ns (segs @ [\<lparr>combinator = comb, parts = cur\<rparr>]) c [])
           \<le> segsSize segs + size_list size cur + size_list size (n # ns)" for c
    using Cons.IH[of "segs @ [\<lparr>combinator = comb, parts = cur\<rparr>]" c "[]"]
    by (simp add: segsSize_def)
  have C: "segsSize (splitLoop ns segs c cur)
           \<le> segsSize segs + size_list size cur + size_list size (n # ns)" for c
    using Cons.IH[of segs c cur] by simp
  show ?case
  proof (cases n)
    case (Combinator v)
    then show ?thesis using B[of "trim v"] C[of "trim v"] by (cases "cur = []") simp_all
  qed (use A C in simp_all)
qed

lemma segsSize_split_le: "segsSize (splitIntoCombinatorSegments ns) \<le> size_list size ns"
  using segsSize_splitLoop[of ns "[]" "'' ''" "[]"]
  by (simp add: splitIntoCombinatorSegments_def segsSize_def)

lemma segsSize_member: "s \<in> set segs \<Longrightarrow> size_list size (parts s) \<le> segsSize segs"
  by (induction segs) (auto simp: segsSize_def)

lemma forestSize_childrenOf: "forestSize (childrenOf e) < size (node e)"
proof -
  have "\<And>k. sum_list (map (\<lambda>x. size (node x)) (map (\<lambda>(i, c). El c i (Some e)) (enumerate k cs)))
        = sum_list (map size cs)" for cs
    by (induction cs) auto
  then have "forestSize (childrenOf e) = sum_list (map size (children (node e)))"
    by (simp add: forestSize_def childrenOf_def)
  also have "\<dots> < size (node e)"
    by (cases "node e") (simp add: size_list_conv_sum_list)
  finally show ?thesis .
qed

lemma forestSize_member: "e \<in> set es \<Longrightarrow> size (node e) \<le> forestSize es"
  by (induction es) (auto simp: forestSize_def)

lemma forestSize_step: "n \<in> set nodes \<Longrightarrow> forestSize (childrenOf n) < forestSize nodes"
  using forestSize_childrenOf[of n] forestSize_member[of n nodes] by simp

lemma selector_size: "Selector t ns \<in> set xs \<Longrightarrow> size_list size ns < size_list size xs"
  by (rule size_list_estimation[where x = "Selector t ns"]) simp_all

lemma segsSize_Cons [simp]: "segsSize (s # segs) = size_list size (parts s) + segsSize segs"
  by (simp add: segsSize_def)

lemma split_first_le:
  "splitIntoCombinatorSegments ns = f # segs \<Longrightarrow> size_list size (parts f) \<le> size_list size ns"
  using segsSize_split_le[of ns] by simp

lemma split_rest_le:
  "splitIntoCombinatorSegments ns = f # segs \<Longrightarrow> segsSize segs \<le> size_list size ns"
  using segsSize_split_le[of ns] by simp

lemma split_last_le:
  "splitIntoCombinatorSegments ns \<noteq> [] \<Longrightarrow>
   size_list size (parts (last (splitIntoCombinatorSegments ns))) \<le> size_list size ns"
  using segsSize_member[of "last (splitIntoCombinatorSegments ns)" "splitIntoCombinatorSegments ns"]
        segsSize_split_le[of ns]
  by simp

lemma segsSize_nth: "i < length segs \<Longrightarrow> size_list size (parts (segs ! i)) \<le> segsSize segs"
  by (simp add: segsSize_member)

function matchesCompound :: "el \<Rightarrow> SelectorNode list \<Rightarrow> error + bool"
  and matchesHasSelector :: "el \<Rightarrow> SelectorNode list \<Rightarrow> error + bool"
  and elementMatchesComplexSelector :: "el \<Rightarrow> SelectorNode list \<Rightarrow> error + bool"
  and matchBackwards :: "el \<Rightarrow> CombinatorSegment list \<Rightarrow> nat \<Rightarrow> error + bool"
  and findDescendantsMatching :: "el list \<Rightarrow> SelectorNode list \<Rightarrow> error + el list"
  and matchAdjacentSiblingViaParent :: "el list \<Rightarrow> SelectorNode list \<Rightarrow> error + el list"
  and matchGeneralSiblingViaParent :: "el list \<Rightarrow> SelectorNode list \<Rightarrow> error + el list"
  and chainSegments :: "el list \<Rightarrow> CombinatorSegment list \<Rightarrow> error + el list"
where
  "matchesCompound e [] = Inr True"
| "matchesCompound e (part # rest) =
     (case part of
        Universal \<Rightarrow> matchesCompound e rest
      | Tag v \<Rightarrow> if tag (node e) \<noteq> v then Inr False else matchesCompound e rest
      | Class v \<Rightarrow> if v \<notin> set (classes (node e)) then Inr False else matchesCompound e rest
      | Id v \<Rightarrow> if node_id (node e) \<noteq> Some v then Inr False else matchesCompound e rest
      | Attribute attrName attrOp attrVal \<Rightarrow>
          (case matchesAttribute e attrName attrOp attrVal of
             Inl err \<Rightarrow> Inl err
           | Inr ok \<Rightarrow> if \<not> ok then Inr False else matchesCompound e rest)
      | Pseudo v nodes \<Rightarrow>
          if v = '':has'' then
            (case someE (\<lambda>inner. case inner of
                                    Selector raw ns \<Rightarrow> matchesHasSelector e ns
                                  | _ \<Rightarrow> Inr False) nodes of
               Inl err \<Rightarrow> Inl err
             | Inr anyMatch \<Rightarrow> if \<not> anyMatch then Inr False else matchesCompound e rest)
          else if v = '':not'' then
            (case someE (\<lambda>inner. case inner of
                                    Selector raw ns \<Rightarrow> elementMatchesComplexSelector e ns
                                  | _ \<Rightarrow> Inr False) nodes of
               Inl err \<Rightarrow> Inl err
             | Inr anyMatch \<Rightarrow> if anyMatch then Inr False else matchesCompound e rest)
          else if v = '':is'' \<or> v = '':where'' then
            (case someE (\<lambda>inner. case inner of
                                    Selector raw ns \<Rightarrow> elementMatchesComplexSelector e ns
                                  | _ \<Rightarrow> Inr False) nodes of
               Inl err \<Rightarrow> Inl err
             | Inr anyMatch \<Rightarrow> if \<not> anyMatch then Inr False else matchesCompound e rest)
          else if \<not> matchStructuralPseudo e v nodes then Inr False
          else matchesCompound e rest
      | _ \<Rightarrow> matchesCompound e rest)"
| "matchesHasSelector e nodes =
     (case splitIntoCombinatorSegments nodes of
        [] \<Rightarrow> Inr False
      | first # segs \<Rightarrow>
          (case
             (if combinator first = ''>'' then
                filterE (\<lambda>ch. matchesCompound ch (parts first)) (childrenOf e)
              else if combinator first = ''+'' then
                (let siblings = getRuntimeSiblings e; idx = indexOf siblings e
                 in if idx \<ge> 0 \<and> idx < int (length siblings) - 1 then
                      (let next = siblings ! (nat idx + 1)
                       in case matchesCompound next (parts first) of
                            Inl err \<Rightarrow> Inl err
                          | Inr ok \<Rightarrow> Inr (if ok then [next] else []))
                    else Inr [])
              else if combinator first = ''~'' then
                (let siblings = getRuntimeSiblings e; idx = indexOf siblings e
                 in if idx \<ge> 0 then
                      filterE (\<lambda>s. matchesCompound s (parts first)) (drop (nat idx + 1) siblings)
                    else Inr [])
              else findDescendantsMatching (childrenOf e) (parts first))
           of
             Inl err \<Rightarrow> Inl err
           | Inr current \<Rightarrow>
               (case chainSegments current segs of
                  Inl err \<Rightarrow> Inl err
                | Inr final \<Rightarrow> Inr (final \<noteq> []))))"
| "chainSegments current [] = Inr current"
| "chainSegments current (seg # segs) =
     (case
        (if combinator seg = ''>'' then
           concatMapE (\<lambda>m. filterE (\<lambda>ch. matchesCompound ch (parts seg)) (childrenOf m)) current
         else if combinator seg = ''+'' then matchAdjacentSiblingViaParent current (parts seg)
         else if combinator seg = ''~'' then matchGeneralSiblingViaParent current (parts seg)
         else concatMapE (\<lambda>m. findDescendantsMatching (childrenOf m) (parts seg)) current)
      of
        Inl err \<Rightarrow> Inl err
      | Inr next \<Rightarrow> chainSegments next segs)"
| "elementMatchesComplexSelector e nodes =
     (let segments = splitIntoCombinatorSegments nodes
      in if segments = [] then Inr False
         else
           (case matchesCompound e (parts (last segments)) of
              Inl err \<Rightarrow> Inl err
            | Inr ok \<Rightarrow>
                if \<not> ok then Inr False
                else if length segments = 1 then Inr True
                else matchBackwards e segments (length segments - 1)))"
| "matchBackwards e segments segIdx =
     (if segIdx = 0 then Inr True
      else if length segments \<le> segIdx then Inl TypeError
      else
        (let comb = combinator (segments ! segIdx);
             prevParts = parts (segments ! (segIdx - 1))
         in if comb = ''>'' then
              (case parent e of
                 None \<Rightarrow> Inr False
               | Some p \<Rightarrow>
                   (case matchesCompound p prevParts of
                      Inl err \<Rightarrow> Inl err
                    | Inr ok \<Rightarrow>
                        if \<not> ok then Inr False
                        else matchBackwards p segments (segIdx - 1)))
            else if comb = '' '' \<or> comb = [] then
              someE (\<lambda>ancestor.
                       case matchesCompound ancestor prevParts of
                         Inl err \<Rightarrow> Inl err
                       | Inr ok \<Rightarrow>
                           if ok then matchBackwards ancestor segments (segIdx - 1)
                           else Inr False) (ancestors e)
            else if comb = ''+'' then
              (let siblings = getRuntimeSiblings e; idx = indexOf siblings e
               in if idx \<le> 0 then Inr False
                  else
                    (let prev = siblings ! (nat idx - 1)
                     in case matchesCompound prev prevParts of
                          Inl err \<Rightarrow> Inl err
                        | Inr ok \<Rightarrow>
                            if \<not> ok then Inr False
                            else matchBackwards prev segments (segIdx - 1)))
            else if comb = ''~'' then
              (let siblings = getRuntimeSiblings e; idx = indexOf siblings e
               in someE (\<lambda>s. case matchesCompound s prevParts of
                                Inl err \<Rightarrow> Inl err
                              | Inr ok \<Rightarrow>
                                  if ok then matchBackwards s segments (segIdx - 1)
                                  else Inr False)
                    (rev (take (nat idx) siblings)))
            else Inr False))"
| "findDescendantsMatching nodes ps =
     concatMapE (\<lambda>n. case matchesCompound n ps of
                       Inl err \<Rightarrow> Inl err
                     | Inr ok \<Rightarrow>
                         (case findDescendantsMatching (childrenOf n) ps of
                            Inl err \<Rightarrow> Inl err
                          | Inr below \<Rightarrow> Inr ((if ok then [n] else []) @ below))) nodes"
| "matchAdjacentSiblingViaParent anchors ps =
     foldE (\<lambda>results anchor.
        (let siblings = (case parent anchor of Some p \<Rightarrow> childrenOf p | None \<Rightarrow> []);
             idx = indexOf siblings anchor
         in if idx < 0 then Inr results
            else
              (case find (\<lambda>s. \<not> isConditionalAlternative anchor s) (drop (nat idx + 1) siblings) of
                 None \<Rightarrow> Inr results
               | Some s \<Rightarrow>
                   (case matchesCompound s ps of
                      Inl err \<Rightarrow> Inl err
                    | Inr ok \<Rightarrow>
                        Inr (if ok \<and> s \<notin> set results then results @ [s] else results)))))
       [] anchors"
| "matchGeneralSiblingViaParent anchors ps =
     foldE (\<lambda>results anchor.
        (let siblings = (case parent anchor of Some p \<Rightarrow> childrenOf p | None \<Rightarrow> []);
             idx = indexOf siblings anchor
         in if idx < 0 then Inr results
            else
              foldE (\<lambda>res s.
                 if isConditionalAlternative anchor s then Inr res
                 else
                   (case matchesCompound s ps of
                      Inl err \<Rightarrow> Inl err
                    | Inr ok \<Rightarrow> Inr (if ok \<and> s \<notin> set res then res @ [s] else res)))
                results (drop (nat idx + 1) siblings))) [] anchors"
  by pat_completeness auto

termination
  apply (relation "inv_image (less_than <*lex*> less_than <*lex*> less_than) engineMeasure")
  apply (intro wf_inv_image wf_lex_prod wf_less_than)
  apply (simp_all add: le_eq_less_or_eq[symmetric] split_first_le split_rest_le split_last_le
           segsSize_split_le segsSize_nth forestSize_step)
  apply (auto dest!: selector_size)
  done

declare findDescendantsMatching.simps [simp del]

lemma findDescendantsMatching_Nil [simp, code]: "findDescendantsMatching [] ps = Inr []"
  by (subst findDescendantsMatching.simps) simp

lemma findDescendantsMatching_Cons [simp, code]:
  "findDescendantsMatching (n # ns) ps =
     (case matchesCompound n ps of
        Inl err \<Rightarrow> Inl err
      | Inr ok \<Rightarrow>
          (case findDescendantsMatching (childrenOf n) ps of
             Inl err \<Rightarrow> Inl err
           | Inr below \<Rightarrow>
               (case findDescendantsMatching ns ps of
                  Inl err \<Rightarrow> Inl err
                | Inr later \<Rightarrow> Inr ((if ok then [n] else []) @ below @ later))))"
proof -
  have "findDescendantsMatching ns ps =
        concatMapE (\<lambda>n. case matchesCompound n ps of
                       Inl err \<Rightarrow> Inl err
                     | Inr ok \<Rightarrow>
                         (case findDescendantsMatching (childrenOf n) ps of
                            Inl err \<Rightarrow> Inl err
                          | Inr below \<Rightarrow> Inr ((if ok then [n] else []) @ below))) ns"
    by (rule findDescendantsMatching.simps)
  then show ?thesis
    by (subst findDescendantsMatching.simps) (simp split: sum.splits)
qed

definition matchAdjacentSibling ::
  "el list \<Rightarrow> el list \<Rightarrow> SelectorNode list \<Rightarrow> error + el list" where
  "matchAdjacentSibling siblings anchors ps =
     (if anchors \<noteq> [] then
        concatMapE (\<lambda>anchor.
          (let idx = indexOf siblings anchor
           in if idx \<ge> 0 \<and> idx + 1 < int (length siblings) then
                (let next = siblings ! (nat idx + 1)
                 in case matchesCompound next ps of
                      Inl err \<Rightarrow> Inl err
                    | Inr ok \<Rightarrow> Inr (if ok then [next] else []))
              else Inr [])) anchors
      else Inr [])"

definition matchGeneralSibling ::
  "el list \<Rightarrow> el list \<Rightarrow> SelectorNode list \<Rightarrow> error + el list" where
  "matchGeneralSibling siblings anchors ps =
     foldE (\<lambda>results anchor.
        (let idx = indexOf siblings anchor
         in if idx \<ge> 0 then
              foldE (\<lambda>res s.
                 case matchesCompound s ps of
                   Inl err \<Rightarrow> Inl err
                 | Inr ok \<Rightarrow> Inr (if ok \<and> s \<notin> set res then res @ [s] else res))
                results (drop (nat idx + 1) siblings)
            else Inr results)) [] anchors"

definition matchSelectorPart ::
  "SelectorNode list \<Rightarrow> el list \<Rightarrow> el list option \<Rightarrow> error + el list" where
  "matchSelectorPart nodes scopeElements parentMatched =
     (if nodes = [Nesting] then
        Inr (case parentMatched of Some pm \<Rightarrow> pm | None \<Rightarrow> scopeElements)
      else
        (case splitIntoCombinatorSegments nodes of
           [] \<Rightarrow> Inr []
         | first # segs \<Rightarrow>
             (case
                (if combinator first = ''>'' then
                   filterE (\<lambda>e. matchesCompound e (parts first)) scopeElements
                 else if combinator first = ''+'' then
                   matchAdjacentSibling scopeElements [] (parts first)
                 else if combinator first = ''~'' then
                   matchGeneralSibling scopeElements [] (parts first)
                 else findDescendantsMatching scopeElements (parts first))
              of
                Inl err \<Rightarrow> Inl err
              | Inr current \<Rightarrow> chainSegments current segs)))"

definition matchSelector ::
  "SelectorNode list \<Rightarrow> el list \<Rightarrow> el list option \<Rightarrow> error + el list" where
  "matchSelector ast scopeElements parentMatched =
     foldE (\<lambda>results selector.
        (case selector of
           Selector raw nodes \<Rightarrow>
             (case matchSelectorPart nodes scopeElements parentMatched of
                Inl err \<Rightarrow> Inl err
              | Inr matched \<Rightarrow>
                  Inr (foldl (\<lambda>res e. if e \<notin> set res then res @ [e] else res) results matched))
         | _ \<Rightarrow> Inr results)) [] ast"

definition rootEls :: "TemplateNode list \<Rightarrow> el list" where
  "rootEls roots = map (\<lambda>(i, n). El n i None) (enumerate 0 roots)"

definition anbUnparsable :: "string \<Rightarrow> bool" where
  \<comment> \<open>the argument is none of the forms \<open>matchesAnPlusB\<close> reads\<close>
  "anbUnparsable expr =
     (let s = toLowerCase (trim expr)
      in s \<noteq> ''odd'' \<and> s \<noteq> ''even'' \<and> \<not> isIntegerLiteral s \<and> matchAnB s = None)"

definition exA :: TemplateNode where "exA = TemplateNode ''a'' None [] [] [] (Some (1, 0))"
definition exB :: TemplateNode where "exB = TemplateNode ''b'' None [] [] [] (Some (1, 1))"
definition exC :: TemplateNode where "exC = TemplateNode ''c'' None [] [] [] None"
definition exP :: el where "exP = El (TemplateNode ''div'' None [] [] [exA, exB, exC] None) 0 None"

definition exInput :: el where
  "exInput = El (TemplateNode ''input'' None []
                  [(''type'', AttrString ''text''), (''disabled'', AttrTrue),
                   (''data-kind'', AttrString ''btn  primary''), (''lang'', AttrString ''en-US'')]
                  [] None) 0 None"

definition isCompoundPart :: "SelectorNode \<Rightarrow> bool" where
  \<comment> \<open>a node that \<open>splitIntoCombinatorSegments\<close> puts into the current compound\<close>
  "isCompoundPart n = (case n of Combinator v \<Rightarrow> False | Nesting \<Rightarrow> False | _ \<Rightarrow> True)"

function descendantsOf :: "el \<Rightarrow> el list" where
  "descendantsOf e = concat (map (\<lambda>c. c # descendantsOf c) (childrenOf e))"
  by pat_completeness auto
termination
proof (relation "measure (\<lambda>e. size (node e))", goal_cases)
  case 1
  show ?case by simp
next
  case (2 e c)
  then show ?case
    using forestSize_member[of c "childrenOf e"] forestSize_childrenOf[of e] by simp
qed

definition compoundParts :: "SelectorNode list \<Rightarrow> bool" where
  "compoundParts ps = (ps \<noteq> [] \<and> list_all isCompoundPart ps)"

definition exImg :: TemplateNode where
  "exImg = TemplateNode ''img'' None [] [] [] None"

definition exCard :: el where
  \<comment> \<open>\<open><div><img></div>\<close>\<close>
  "exCard = El (TemplateNode ''div'' None [] [] [exImg] None) 0 None"

definition exDeep :: el where
  \<comment> \<open>\<open><div><p><img></p></div>\<close>\<close>
  "exDeep = El (TemplateNode ''div'' None [] []
                  [TemplateNode ''p'' None [] [] [exImg] None] None) 0 None"

definition exBare :: el where
  \<comment> \<open>\<open><div></div>\<close>: no attribute at all\<close>
  "exBare = El (TemplateNode ''div'' None [] [] [] None) 0 None"

definition hasInner :: "el \<Rightarrow> SelectorNode \<Rightarrow> error + bool" where
  "hasInner e inner = (case inner of Selector raw ns \<Rightarrow> matchesHasSelector e ns | _ \<Rightarrow> Inr False)"

section \<open>The style parser\<close>

text \<open>
  The parser reads the text of a style block into rules, exports and imports. Its
  warnings go to \<open>console.warn\<close>; here they are returned beside the result, in the
  order in which they are written, each with the file and line that the message names.
  Positions are indices into the text.
\<close>

definition isWordChar :: "char \<Rightarrow> bool" where
  \<comment> \<open>the class \<open>\w\<close>\<close>
  "isWordChar c =
     (let n = (of_char c :: nat)
      in (48 \<le> n \<and> n \<le> 57) \<or> (65 \<le> n \<and> n \<le> 90) \<or> (97 \<le> n \<and> n \<le> 122) \<or> n = 95)"

definition charAt :: "string \<Rightarrow> nat \<Rightarrow> char option" where
  \<comment> \<open>\<open>s[i]\<close>, \<open>None\<close> for \<open>undefined\<close>\<close>
  "charAt s i = (if i < length s then Some (s ! i) else None)"

definition substring :: "string \<Rightarrow> nat \<Rightarrow> nat \<Rightarrow> string" where
  \<comment> \<open>\<open>s.substring(a, b)\<close>: the arguments are swapped when \<open>a > b\<close>\<close>
  "substring s a b = take (max a b - min a b) (drop (min a b) s)"

definition startsWithAt :: "string \<Rightarrow> string \<Rightarrow> nat \<Rightarrow> bool" where
  \<comment> \<open>\<open>s.startsWith(p, i)\<close>\<close>
  "startsWithAt s p i = prefix p (drop i s)"

fun indexOfFrom :: "string \<Rightarrow> string \<Rightarrow> nat \<Rightarrow> nat option" where
  \<comment> \<open>\<open>s.indexOf(p, i)\<close> for a non-empty \<open>p\<close>; the first argument is \<open>drop i s\<close>\<close>
  "indexOfFrom [] p i = None"
| "indexOfFrom (c # cs) p i = (if prefix p (c # cs) then Some i else indexOfFrom cs p (Suc i))"

definition indexOf_str :: "string \<Rightarrow> string \<Rightarrow> nat \<Rightarrow> nat option" where
  "indexOf_str s p i = indexOfFrom (drop i s) p i"

fun splitOn :: "char \<Rightarrow> string \<Rightarrow> string list" where
  \<comment> \<open>\<open>s.split(c)\<close>\<close>
  "splitOn c [] = [] # []"
| "splitOn c (x # xs) =
     (if x = c then [] # splitOn c xs
      else (case splitOn c xs of l # ls \<Rightarrow> (x # l) # ls | [] \<Rightarrow> [x] # []))"

fun joinWith :: "string \<Rightarrow> string list \<Rightarrow> string" where
  \<comment> \<open>\<open>ls.join(sep)\<close>\<close>
  "joinWith sep [] = []"
| "joinWith sep [l] = l"
| "joinWith sep (l # ls) = l @ sep @ joinWith sep ls"

definition newline :: char where
  "newline = char_of (10 :: nat)"

definition lineAt :: "string \<Rightarrow> nat \<Rightarrow> nat" where
  "lineAt src offset = 1 + length (filter (\<lambda>c. c = newline) (take offset src))"

datatype warning =
    MalformedImport "string option" nat string
  | UnclosedBrace "string option" nat
  | UnsupportedAtRule "string option" nat string
  | MalformedUse "string option" nat string
  | DuplicateExport string
  | ImportNameNotFound string string "string list"
  | CircularUseInExport string string
  | UseNotFoundInFileInExport string string string
  | UseNotDefinedInExport string string
  | CircularUse string
  | UseNotFoundInFile string string
  | UseNotDefined string

datatype UseDirective = UseDirective (name: string) (from': "string option")

datatype StyleRule = StyleRule
  (selector: string)
  (classes: "string list")
  (declarations: "string list")
  (uses: "UseDirective list")
  (children: "StyleRule list")

datatype ExportBlock = ExportBlock
  (name: string)
  (classes: "string list")
  (declarations: "string list")
  (uses: "UseDirective list")
  (children: "StyleRule list")

datatype ImportDirective = ImportDirective (names: "string list") (from': string)

datatype ParseResult = ParseResult
  (rules: "StyleRule list")
  (exports: "ExportBlock list")
  (imports': "ImportDirective list")

datatype Body = Body
  (classes: "string list")
  (declarations: "string list")
  (uses: "UseDirective list")
  (children: "StyleRule list")

type_synonym scanState = "int \<times> int \<times> char option \<times> bool"

definition scanQuoteOrComment :: "string \<Rightarrow> nat \<Rightarrow> scanState \<Rightarrow> (nat \<times> scanState) option" where
  \<comment> \<open>the branches that both scanners share: inside a string, inside a comment, at the
      start of a comment, of a string, at a bracket. The result is the next index and the
      next \<open>(depth, inBracket, inString, inComment)\<close>; \<open>None\<close> when none of them applies\<close>
  "scanQuoteOrComment src i st =
     (case st of (depth, inBracket, inString, inComment) \<Rightarrow>
        (case inString of
           Some q \<Rightarrow>
             Some (i + 1, depth, inBracket,
                   (if charAt src i = Some q \<and> (i = 0 \<or> charAt src (i - 1) \<noteq> Some (CHR 0x5C))
                    then None else Some q),
                   inComment)
         | None \<Rightarrow>
             if inComment then
               (if charAt src i = Some (CHR ''*'') \<and> charAt src (i + 1) = Some (CHR ''/'')
                then Some (i + 2, depth, inBracket, None, False)
                else Some (i + 1, depth, inBracket, None, True))
             else if charAt src i = Some (CHR ''/'') \<and> charAt src (i + 1) = Some (CHR ''*'')
               then Some (i + 2, depth, inBracket, None, True)
             else if charAt src i = Some (CHR 0x22) \<or> charAt src i = Some (CHR 0x27)
               then Some (i + 1, depth, inBracket, charAt src i, False)
             else if charAt src i = Some (CHR ''['')
               then Some (i + 1, depth, inBracket + 1, None, False)
             else if charAt src i = Some (CHR '']'')
               then Some (i + 1, depth, inBracket - 1, None, False)
             else None))"

definition findTopLevelCharStep :: "string \<Rightarrow> char \<Rightarrow> nat \<Rightarrow> scanState \<Rightarrow> nat + (nat \<times> scanState)" where
  \<comment> \<open>the body of the \<open>for\<close> loop of \<open>findTopLevelChar\<close>: \<open>Inl\<close> is \<open>return i\<close>\<close>
  "findTopLevelCharStep src ch i st =
     (case scanQuoteOrComment src i st of
        Some next \<Rightarrow> Inr next
      | None \<Rightarrow>
          (case st of (depth, inBracket, inString, inComment) \<Rightarrow>
             if inBracket = 0 then
               (if charAt src i = Some (CHR ''{'') then
                  (if depth = 0 \<and> ch = CHR ''{'' then Inl i
                   else Inr (i + 1, depth + 1, inBracket, inString, inComment))
                else if charAt src i = Some (CHR ''}'') then
                  (if depth = 0 \<and> ch = CHR ''}'' then Inl i
                   else Inr (i + 1, depth - 1, inBracket, inString, inComment))
                else if depth = 0 \<and> charAt src i = Some ch then Inl i
                else Inr (i + 1, st))
             else Inr (i + 1, st)))"

lemma scanQuoteOrComment_advances: "scanQuoteOrComment src i st = Some (j, st') \<Longrightarrow> i < j"
  by (cases st) (auto simp: scanQuoteOrComment_def split: option.splits if_splits)

lemma findTopLevelCharStep_advances: "findTopLevelCharStep src ch i st = Inr (j, st') \<Longrightarrow> i < j"
  by (cases st)
     (auto simp: findTopLevelCharStep_def split: option.splits if_splits
           dest: scanQuoteOrComment_advances)


function findTopLevelCharLoop :: "string \<Rightarrow> nat \<Rightarrow> char \<Rightarrow> nat \<Rightarrow> scanState \<Rightarrow> nat option" where
  "findTopLevelCharLoop src end' ch i st =
     (if i < end' then
        (case findTopLevelCharStep src ch i st of
           Inl r \<Rightarrow> Some r
         | Inr (j, st') \<Rightarrow> findTopLevelCharLoop src end' ch j st')
      else None)"
  by pat_completeness auto
termination
  by (relation "measure (\<lambda>(src, end', ch, i, st). end' - i)")
     (auto dest: findTopLevelCharStep_advances)

declare findTopLevelCharLoop.simps [simp del]

definition findTopLevelChar :: "string \<Rightarrow> nat \<Rightarrow> nat \<Rightarrow> char \<Rightarrow> nat option" where
  "findTopLevelChar src start end' ch = findTopLevelCharLoop src end' ch start (0, 0, None, False)"

definition findMatchingBraceStep :: "string \<Rightarrow> nat \<Rightarrow> scanState \<Rightarrow> nat + (nat \<times> scanState)" where
  \<comment> \<open>the body of the \<open>for\<close> loop of \<open>findMatchingBrace\<close>\<close>
  "findMatchingBraceStep src i st =
     (case scanQuoteOrComment src i st of
        Some next \<Rightarrow> Inr next
      | None \<Rightarrow>
          (case st of (depth, inBracket, inString, inComment) \<Rightarrow>
             if inBracket = 0 then
               (if charAt src i = Some (CHR ''{'')
                  then Inr (i + 1, depth + 1, inBracket, inString, inComment)
                else if charAt src i = Some (CHR ''}'') then
                  (if depth - 1 = 0 then Inl i
                   else Inr (i + 1, depth - 1, inBracket, inString, inComment))
                else Inr (i + 1, st))
             else Inr (i + 1, st)))"

lemma findMatchingBraceStep_advances: "findMatchingBraceStep src i st = Inr (j, st') \<Longrightarrow> i < j"
  by (cases st)
     (auto simp: findMatchingBraceStep_def split: option.splits if_splits
           dest: scanQuoteOrComment_advances)


function findMatchingBraceLoop :: "string \<Rightarrow> nat \<Rightarrow> scanState \<Rightarrow> nat" where
  "findMatchingBraceLoop src i st =
     (if i < length src then
        (case findMatchingBraceStep src i st of
           Inl r \<Rightarrow> r
         | Inr (j, st') \<Rightarrow> findMatchingBraceLoop src j st')
      else length src)"
  by pat_completeness auto
termination
  by (relation "measure (\<lambda>(src, i, st). length src - i)")
     (auto dest: findMatchingBraceStep_advances)

declare findMatchingBraceLoop.simps [simp del]

definition findMatchingBrace :: "string \<Rightarrow> nat \<Rightarrow> nat" where
  "findMatchingBrace src openPos = findMatchingBraceLoop src (openPos + 1) (1, 0, None, False)"

definition UNSUPPORTED_AT_RULES :: "string list" where
  "UNSUPPORTED_AT_RULES =
     [''media'', ''keyframes'', ''supports'', ''layer'', ''container'', ''font-face'',
      ''property'', ''page'', ''counter-style'']"

definition isUnsupportedAtRule :: "string \<Rightarrow> bool" where
  \<comment> \<open>\<open>/^@(media|keyframes|...|counter-style)\b/\<close>\<close>
  "isUnsupportedAtRule t =
     list_ex (\<lambda>kw. prefix (CHR ''@'' # kw) t
                  \<and> (case drop (Suc (length kw)) t of [] \<Rightarrow> True | c # _ \<Rightarrow> \<not> isWordChar c))
       UNSUPPORTED_AT_RULES"

definition atRuleName :: "string \<Rightarrow> string" where
  \<comment> \<open>\<open>(t.match(/^@[\w-]+/) || [t])[0]\<close>\<close>
  "atRuleName t =
     (case t of
        [] \<Rightarrow> t
      | c # r \<Rightarrow>
          (let n = takeWhile (\<lambda>x. isWordChar x \<or> x = CHR ''-'') r
           in if c = CHR ''@'' \<and> n \<noteq> [] then c # n else t))"

definition isQuote :: "char \<Rightarrow> bool" where
  "isQuote c = (c = CHR 0x22 \<or> c = CHR 0x27)"

definition matchTail :: "string \<Rightarrow> bool" where
  \<comment> \<open>\<open>\s*;?\s*$\<close>\<close>
  "matchTail r =
     (case dropWhile isSpace r of
        [] \<Rightarrow> True
      | c # t \<Rightarrow> c = CHR '';'' \<and> list_all isSpace t)"

definition matchFromClause :: "string \<Rightarrow> (string \<times> string) option" where
  \<comment> \<open>\<open>\s+from\s+['"]([^'"]+)['"]\<close> at the start: the path and the rest\<close>
  "matchFromClause r =
     (let r1 = dropWhile isSpace r in
      if takeWhile isSpace r = [] \<or> \<not> prefix ''from'' r1 then None
      else
        (let r2 = drop 4 r1; r3 = dropWhile isSpace r2 in
         if takeWhile isSpace r2 = [] then None
         else
           (case r3 of
              [] \<Rightarrow> None
            | q # r4 \<Rightarrow>
                if \<not> isQuote q then None
                else
                  (let path = takeWhile (\<lambda>c. \<not> isQuote c) r4;
                       r5 = dropWhile (\<lambda>c. \<not> isQuote c) r4
                   in if path = [] then None
                      else (case r5 of [] \<Rightarrow> None | _ # r6 \<Rightarrow> Some (path, r6))))))"

definition parseUseDirective :: "string \<Rightarrow> UseDirective option" where
  \<comment> \<open>\<open>/^@use\s+([\w][\w-]*)(?:\s+from\s+['"]([^'"]+)['"])?\s*;?\s*$/\<close>\<close>
  "parseUseDirective t =
     (if \<not> prefix ''@use'' t then None
      else
        (let r1 = drop 4 t; r2 = dropWhile isSpace r1 in
         if takeWhile isSpace r1 = [] then None
         else
           (case r2 of
              [] \<Rightarrow> None
            | c # r \<Rightarrow>
                if \<not> isWordChar c then None
                else
                  (let nm = c # takeWhile (\<lambda>x. isWordChar x \<or> x = CHR ''-'') r;
                       r3 = dropWhile (\<lambda>x. isWordChar x \<or> x = CHR ''-'') r
                   in case matchFromClause r3 of
                        Some (path, r4) \<Rightarrow>
                          if matchTail r4 then Some (UseDirective nm (Some path))
                          else if matchTail r3 then Some (UseDirective nm None) else None
                      | None \<Rightarrow>
                          if matchTail r3 then Some (UseDirective nm None) else None))))"

definition isImportNameChar :: "char \<Rightarrow> bool" where
  \<comment> \<open>the class \<open>[\w\s,-]\<close>\<close>
  "isImportNameChar c = (isWordChar c \<or> isSpace c \<or> c = CHR '','' \<or> c = CHR ''-'')"

definition parseImportDirective :: "string \<Rightarrow> ImportDirective option" where
  \<comment> \<open>\<open>/^@import\s+([\w][\w\s,-]*)\s+from\s+['"]([^'"]+)['"]\s*;?\s*$/\<close>; the first group is
      greedy, so the longest run that lets the rest match is taken\<close>
  "parseImportDirective t =
     (if \<not> prefix ''@import'' t then None
      else
        (let r1 = drop 7 t; r2 = dropWhile isSpace r1 in
         if takeWhile isSpace r1 = [] then None
         else
           (case r2 of
              [] \<Rightarrow> None
            | c # r \<Rightarrow>
                if \<not> isWordChar c then None
                else
                  (let run = takeWhile isImportNameChar r
                   in case find (\<lambda>k. case matchFromClause (drop k r) of
                                        Some (path, rest) \<Rightarrow> matchTail rest
                                      | None \<Rightarrow> False)
                             (rev [0..<Suc (length run)]) of
                        None \<Rightarrow> None
                      | Some k \<Rightarrow>
                          (case matchFromClause (drop k r) of
                             Some (path, rest) \<Rightarrow>
                               Some (ImportDirective
                                       (filter (\<lambda>n. n \<noteq> [])
                                          (map trim (splitOn (CHR '','') (c # take k r))))
                                       path)
                           | None \<Rightarrow> None)))))"

function stripComments :: "string \<Rightarrow> string" where
  \<comment> \<open>\<open>text.replace(/\/\*[\s\S]*?\*\//g, '')\<close>\<close>
  "stripComments [] = []"
| "stripComments (c # cs) =
     (if prefix ''/*'' (c # cs) then
        (case indexOf_str (c # cs) ''*/'' 2 of
           Some k \<Rightarrow> stripComments (drop (k + 2) (c # cs))
         | None \<Rightarrow> c # stripComments cs)
      else c # stripComments cs)"
  by pat_completeness auto
termination
  by (relation "measure length") auto

definition AMBIGUOUS_TAG_CLASSES :: "string list" where
  "AMBIGUOUS_TAG_CLASSES =
     [''flex'', ''grid'', ''table'', ''hidden'', ''block'', ''inline'', ''contents'', ''fixed'',
      ''absolute'', ''relative'', ''sticky'', ''static'', ''visible'', ''invisible'', ''collapse'']"

definition isSelectorSyntaxChar :: "char \<Rightarrow> bool" where
  \<comment> \<open>the class \<open>[>+~.#\[\]:,]\<close>\<close>
  "isSelectorSyntaxChar c = (c \<in> set ''>+~.#[]:,'')"

definition looksLikeSelector :: "string \<Rightarrow> bool" where
  "looksLikeSelector t =
     (let trimmed = trim t in
      if prefix ''>'' trimmed \<or> prefix ''+'' trimmed \<or> prefix ''~'' trimmed then True
      else if prefix ''.'' trimmed \<or> prefix ''#'' trimmed \<or> prefix ''['' trimmed
              \<or> prefix ''*'' trimmed \<or> prefix ''&'' trimmed \<or> prefix '':'' trimmed then True
      else if list_ex isSelectorSyntaxChar trimmed then True
      else if trimmed \<in> set AMBIGUOUS_TAG_CLASSES then False
      else True)"

fun selectorEndLoop :: "string list \<Rightarrow> nat \<Rightarrow> nat option" where
  \<comment> \<open>\<open>while (selectorEnd >= 0 && !lines[selectorEnd].trim()) selectorEnd--\<close>; the second
      argument is \<open>selectorEnd + 1\<close>\<close>
  "selectorEndLoop lines 0 = None"
| "selectorEndLoop lines (Suc i) =
     (if trim (lines ! i) = [] then selectorEndLoop lines i else Some i)"

fun selectorStartLoop :: "string list \<Rightarrow> nat \<Rightarrow> nat" where
  \<comment> \<open>\<open>while (selectorStart > 0)\<close>: step back over lines that end with a comma\<close>
  "selectorStartLoop lines 0 = 0"
| "selectorStartLoop lines (Suc i) =
     (if suffix '','' (trim (lines ! i)) then selectorStartLoop lines i else Suc i)"

definition splitClassesAndSelector :: "string \<Rightarrow> string \<times> string" where
  \<comment> \<open>the pair is \<open>(classText, selector)\<close>\<close>
  "splitClassesAndSelector t =
     (let lines = splitOn newline t in
      case selectorEndLoop lines (length lines) of
        None \<Rightarrow> ([], [])
      | Some selectorEnd \<Rightarrow>
          (let selectorStart = selectorStartLoop lines selectorEnd;
               sel = trim (joinWith [newline]
                             (take (selectorEnd + 1 - selectorStart) (drop selectorStart lines)))
           in if \<not> looksLikeSelector sel then (t, [])
              else (joinWith [newline] (take selectorStart lines), sel)))"

text \<open>
  \<open>parseBody\<close> calls itself for every nested block, and both \<open>parseBody\<close> and
  \<open>parseRules\<close> loop while the position is before the end. The first argument of the
  loops below bounds the depth of these calls and the number of passes; \<open>None\<close> is the
  result when the bound is reached. One pass of each loop is a function of its own.
\<close>

lemma indexOfFrom_ge: "indexOfFrom s p i = Some k \<Longrightarrow> i \<le> k"
  by (induction s arbitrary: i) (auto split: if_splits dest: Suc_leD)

lemma indexOf_str_ge: "indexOf_str s p i = Some k \<Longrightarrow> i \<le> k"
  unfolding indexOf_str_def by (rule indexOfFrom_ge)

function skipWhitespaceAndComments :: "string \<Rightarrow> nat \<Rightarrow> nat \<Rightarrow> nat" where
  "skipWhitespaceAndComments src end' pos =
     (if pos < end' then
        (if (case charAt src pos of Some c \<Rightarrow> isSpace c | None \<Rightarrow> False)
           then skipWhitespaceAndComments src end' (pos + 1)
         else if charAt src pos = Some (CHR ''/'') \<and> charAt src (pos + 1) = Some (CHR ''*'') then
           (case indexOf_str src ''*/'' (pos + 2) of
              None \<Rightarrow> end'
            | Some close \<Rightarrow> skipWhitespaceAndComments src end' (close + 2))
         else pos)
      else pos)"
  by pat_completeness auto
termination
  by (relation "measure (\<lambda>(src, end', pos). end' - pos)")
     (auto dest!: indexOf_str_ge)

declare skipWhitespaceAndComments.simps [simp del]

fun extractLines ::
  "string \<Rightarrow> string option \<Rightarrow> nat \<Rightarrow> string list \<Rightarrow> nat \<Rightarrow> Body \<Rightarrow> warning list
   \<Rightarrow> Body \<times> warning list" where
  "extractLines src filePath baseOffset [] lineOffset body ws = (body, ws)"
| "extractLines src filePath baseOffset (line # rest) lineOffset body ws =
     (let trimmed = trim line in
      if trimmed = [] then
        extractLines src filePath baseOffset rest (lineOffset + length line + 1) body ws
      else if prefix ''@use '' trimmed \<or> trimmed = ''@use'' then
        (case parseUseDirective trimmed of
           Some directive \<Rightarrow>
             extractLines src filePath baseOffset rest (lineOffset + length line + 1)
               (Body (Body.classes body) (Body.declarations body)
                     (Body.uses body @ [directive]) (Body.children body)) ws
         | None \<Rightarrow>
             extractLines src filePath baseOffset rest (lineOffset + length line + 1) body
               (ws @ [MalformedUse filePath (lineAt src (baseOffset + lineOffset)) trimmed]))
      else if suffix '';'' trimmed then
        extractLines src filePath baseOffset rest (lineOffset + length line + 1)
          (Body (Body.classes body) (Body.declarations body @ [trimmed])
                (Body.uses body) (Body.children body)) ws
      else
        extractLines src filePath baseOffset rest (lineOffset + length line + 1)
          (Body (Body.classes body @ filter (\<lambda>t. t \<noteq> []) (splitWhitespace trimmed))
                (Body.declarations body) (Body.uses body) (Body.children body)) ws)"

definition extractContent ::
  "string \<Rightarrow> Body \<Rightarrow> string \<Rightarrow> string option \<Rightarrow> nat \<Rightarrow> warning list \<Rightarrow> Body \<times> warning list" where
  "extractContent t body src filePath baseOffset ws =
     extractLines src filePath baseOffset (splitOn newline (stripComments t)) 0 body ws"

datatype bodyStep =
    BodyDone Body "warning list"
  | BodySkip nat Body "warning list"
  | BodyNested nat nat string Body "warning list"

definition parseBodyStep ::
  "string \<Rightarrow> string option \<Rightarrow> nat \<Rightarrow> nat \<Rightarrow> Body \<Rightarrow> warning list \<Rightarrow> bodyStep" where
  \<comment> \<open>one pass through the \<open>while\<close> loop of \<open>parseBody\<close>, up to the recursive call:
      \<open>BodyDone\<close> is the \<open>break\<close> after the last content, \<open>BodySkip\<close> the \<open>continue\<close> past
      an unsupported at-rule, \<open>BodyNested bracePos closePos trimmedSel\<close> a nested block\<close>
  "parseBodyStep src filePath end' pos body ws =
     (case findTopLevelChar src pos end' (CHR ''{'') of
        None \<Rightarrow>
          (case extractContent (substring src pos end') body src filePath pos ws of
             (body1, ws1) \<Rightarrow> BodyDone body1 ws1)
      | Some bracePos \<Rightarrow>
          (case splitClassesAndSelector (substring src pos bracePos) of
             (classText, sel) \<Rightarrow>
               (case extractContent classText body src filePath pos ws of
                  (body1, ws1) \<Rightarrow>
                    (let closePos = findMatchingBrace src bracePos;
                         trimmedSel = trim sel
                     in if isUnsupportedAtRule trimmedSel then
                          BodySkip (closePos + 1) body1
                            (ws1 @ [UnsupportedAtRule filePath (lineAt src pos)
                                      (atRuleName trimmedSel)])
                        else BodyNested bracePos closePos trimmedSel body1 ws1))))"

fun parseBodyLoop ::
  "nat \<Rightarrow> string \<Rightarrow> string option \<Rightarrow> nat \<Rightarrow> nat \<Rightarrow> Body \<Rightarrow> warning list
   \<Rightarrow> (Body \<times> warning list) option" where
  "parseBodyLoop 0 src filePath end' pos body ws = None"
| "parseBodyLoop (Suc fuel) src filePath end' pos body ws =
     (if pos < end' then
        (case parseBodyStep src filePath end' pos body ws of
           BodyDone body1 ws1 \<Rightarrow> Some (body1, ws1)
         | BodySkip pos' body1 ws1 \<Rightarrow> parseBodyLoop fuel src filePath end' pos' body1 ws1
         | BodyNested bracePos closePos trimmedSel body1 ws1 \<Rightarrow>
             (case parseBodyLoop fuel src filePath closePos (bracePos + 1) (Body [] [] [] []) ws1 of
                None \<Rightarrow> None
              | Some (inner, ws2) \<Rightarrow>
                  parseBodyLoop fuel src filePath end' (closePos + 1)
                    (Body (Body.classes body1) (Body.declarations body1) (Body.uses body1)
                       (Body.children body1
                        @ [StyleRule trimmedSel (Body.classes inner) (Body.declarations inner)
                             (Body.uses inner) (Body.children inner)]))
                    ws2))
      else Some (body, ws))"

definition parseBody ::
  "nat \<Rightarrow> string \<Rightarrow> string option \<Rightarrow> nat \<Rightarrow> nat \<Rightarrow> warning list \<Rightarrow> (Body \<times> warning list) option" where
  "parseBody fuel src filePath start end' ws =
     parseBodyLoop fuel src filePath end' start (Body [] [] [] []) ws"

definition parseRulesStep ::
  "nat \<Rightarrow> string \<Rightarrow> string option \<Rightarrow> nat \<Rightarrow> nat \<Rightarrow> ParseResult \<Rightarrow> warning list
   \<Rightarrow> ((ParseResult \<times> warning list) + (nat \<times> ParseResult \<times> warning list)) option" where
  \<comment> \<open>one pass through the body of the \<open>while\<close> loop of \<open>parseRules\<close>: \<open>Inl\<close> is a
      \<open>break\<close>, \<open>Inr\<close> carries the new \<open>ctx.pos\<close> into the next pass\<close>
  "parseRulesStep fuel src filePath end' pos0 res ws =
     (let pos = skipWhitespaceAndComments src end' pos0 in
      if pos \<ge> end' then Some (Inl (res, ws))
      else if startsWithAt src ''@import '' pos then
        (let actualEnd = (case indexOf_str src [newline] pos of
                            None \<Rightarrow> end'
                          | Some lineEnd \<Rightarrow> min lineEnd end');
             line = trim (substring src pos actualEnd)
         in case parseImportDirective line of
              Some directive \<Rightarrow>
                Some (Inr (actualEnd + 1,
                           ParseResult (rules res) (exports res) (imports' res @ [directive]), ws))
            | None \<Rightarrow>
                Some (Inr (actualEnd + 1, res,
                           ws @ [MalformedImport filePath (lineAt src pos) line])))
      else
        (case findTopLevelChar src pos end' (CHR ''{'') of
           None \<Rightarrow> Some (Inl (res, ws))
         | Some bracePos \<Rightarrow>
             (let textBefore = trim (substring src pos bracePos);
                  closePos = findMatchingBrace src bracePos;
                  ws1 = (if closePos \<ge> length src
                         then ws @ [UnclosedBrace filePath (lineAt src bracePos)] else ws)
              in if isUnsupportedAtRule textBefore then
                   Some (Inr (closePos + 1, res,
                              ws1 @ [UnsupportedAtRule filePath (lineAt src pos)
                                       (atRuleName textBefore)]))
                 else
                   (case parseBody fuel src filePath (bracePos + 1) closePos ws1 of
                      None \<Rightarrow> None
                    | Some (body, ws2) \<Rightarrow>
                        if prefix ''@export '' textBefore then
                          Some (Inr (closePos + 1,
                                     ParseResult (rules res)
                                       (exports res
                                        @ [ExportBlock (trim (drop 8 textBefore))
                                             (Body.classes body) (Body.declarations body)
                                             (Body.uses body) (Body.children body)])
                                       (imports' res),
                                     ws2))
                        else
                          Some (Inr (closePos + 1,
                                     ParseResult
                                       (rules res
                                        @ [StyleRule textBefore (Body.classes body)
                                             (Body.declarations body) (Body.uses body)
                                             (Body.children body)])
                                       (exports res) (imports' res),
                                     ws2))))))"

fun parseRulesLoop ::
  "nat \<Rightarrow> string \<Rightarrow> string option \<Rightarrow> nat \<Rightarrow> nat \<Rightarrow> ParseResult \<Rightarrow> warning list
   \<Rightarrow> (ParseResult \<times> warning list) option" where
  "parseRulesLoop 0 src filePath end' pos res ws = None"
| "parseRulesLoop (Suc fuel) src filePath end' pos res ws =
     (if pos < end' then
        (case parseRulesStep fuel src filePath end' pos res ws of
           None \<Rightarrow> None
         | Some (Inl r) \<Rightarrow> Some r
         | Some (Inr (pos', res', ws')) \<Rightarrow> parseRulesLoop fuel src filePath end' pos' res' ws')
      else Some (res, ws))"

definition parseStyleBlock ::
  "nat \<Rightarrow> string \<Rightarrow> string option \<Rightarrow> (ParseResult \<times> warning list) option" where
  "parseStyleBlock fuel content filePath =
     parseRulesLoop fuel content filePath (length content) 0 (ParseResult [] [] []) []"



section \<open>Resolving directives\<close>

text \<open>
  The resolver changes rules and export blocks in place, and an export block that is
  being changed can be the block that one of its own uses names. So the objects live in
  a store: a list of objects, an object being referred to by its index. A rule and an
  export block have the same fields for the resolver; \<open>obj_label\<close> is the selector of
  a rule and the name of an export block. The arrays \<open>classes\<close>, \<open>declarations\<close> and
  \<open>uses\<close> of an object are copied whenever they are read, and the array \<open>children\<close>
  is read while it grows; each array belongs to one object. An index outside the store
  stands for no object of the source and reads as an empty rule.

  The sets of strings of the source are lists without repetition, in the order of
  insertion. The functions of the path library and the export blocks of the files are
  parameters: \<open>resolvePath\<close> is \<open>resolve(dir, from)\<close>, and \<open>fileExports\<close> gives, for an
  absolute path, the export blocks that \<open>extractExportsFromFile\<close> returns for it from
  its cache. Reading a file, parsing it and resolving its own exports is not modelled.
  The dependencies that \<open>resolveDirectives\<close> stores at its end for the caller are the
  field \<open>deps\<close> of the state it returns.

  The loops over \<open>children\<close> and the recursion over the rules take fuel, and \<open>None\<close>
  is the result only when the fuel is used up.
\<close>

datatype ruleObject = RuleObject
  (obj_label: string)
  (obj_classes: "string list")
  (obj_declarations: "string list")
  (obj_uses: "UseDirective list")
  (obj_children: "nat list")

type_synonym store = "ruleObject list"

definition deref :: "store \<Rightarrow> nat \<Rightarrow> ruleObject" where
  "deref h a = (if a < length h then h ! a else RuleObject [] [] [] [] [])"

fun storeRule :: "StyleRule \<Rightarrow> store \<Rightarrow> nat \<times> store"
  and storeRules :: "StyleRule list \<Rightarrow> store \<Rightarrow> nat list \<times> store" where
  \<comment> \<open>the objects of a parsed rule: a fresh object for every rule of the tree\<close>
  "storeRule (StyleRule sel cls decls us kids) h =
     (case storeRules kids h of
        (ks, h1) \<Rightarrow> (length h1, h1 @ [RuleObject sel cls decls us ks]))"
| "storeRules [] h = ([], h)"
| "storeRules (r # rs) h =
     (case storeRule r h of
        (a, h1) \<Rightarrow> (case storeRules rs h1 of (as, h2) \<Rightarrow> (a # as, h2)))"

definition storeExport :: "ExportBlock \<Rightarrow> store \<Rightarrow> nat \<times> store" where
  "storeExport e h =
     (case storeRules (ExportBlock.children e) h of
        (ks, h1) \<Rightarrow>
          (length h1,
           h1 @ [RuleObject (ExportBlock.name e) (ExportBlock.classes e)
                   (ExportBlock.declarations e) (ExportBlock.uses e) ks]))"

fun storeExports :: "ExportBlock list \<Rightarrow> store \<Rightarrow> nat list \<times> store" where
  "storeExports [] h = ([], h)"
| "storeExports (e # es) h =
     (case storeExport e h of
        (a, h1) \<Rightarrow> (case storeExports es h1 of (as, h2) \<Rightarrow> (a # as, h2)))"

fun cloneRule :: "nat \<Rightarrow> store \<Rightarrow> nat \<Rightarrow> (nat \<times> store) option"
  and cloneRules :: "nat \<Rightarrow> store \<Rightarrow> nat list \<Rightarrow> (nat list \<times> store) option" where
  "cloneRule 0 h a = None"
| "cloneRule (Suc fuel) h a =
     (let rule = deref h a
      in case cloneRules fuel h (obj_children rule) of
           None \<Rightarrow> None
         | Some (ks, h1) \<Rightarrow>
             Some (length h1,
                   h1 @ [RuleObject (obj_label rule) (obj_classes rule) (obj_declarations rule)
                           (obj_uses rule) ks]))"
| "cloneRules fuel h [] = Some ([], h)"
| "cloneRules fuel h (c # cs) =
     (case cloneRule fuel h c of
        None \<Rightarrow> None
      | Some (c', h1) \<Rightarrow>
          (case cloneRules fuel h1 cs of
             None \<Rightarrow> None
           | Some (cs', h2) \<Rightarrow> Some (c' # cs', h2)))"

definition pushClasses :: "store \<Rightarrow> nat \<Rightarrow> string list \<Rightarrow> store" where
  "pushClasses h a xs =
     (let r = deref h a
      in h[a := RuleObject (obj_label r) (obj_classes r @ xs) (obj_declarations r)
                  (obj_uses r) (obj_children r)])"

definition pushDeclarations :: "store \<Rightarrow> nat \<Rightarrow> string list \<Rightarrow> store" where
  "pushDeclarations h a xs =
     (let r = deref h a
      in h[a := RuleObject (obj_label r) (obj_classes r) (obj_declarations r @ xs)
                  (obj_uses r) (obj_children r)])"

definition pushChild :: "store \<Rightarrow> nat \<Rightarrow> nat \<Rightarrow> store" where
  "pushChild h a c =
     (let r = deref h a
      in h[a := RuleObject (obj_label r) (obj_classes r) (obj_declarations r)
                  (obj_uses r) (obj_children r @ [c])])"

definition clearUses :: "store \<Rightarrow> nat \<Rightarrow> store" where
  \<comment> \<open>\<open>rule.uses = []\<close>\<close>
  "clearUses h a =
     (let r = deref h a
      in h[a := RuleObject (obj_label r) (obj_classes r) (obj_declarations r)
                  [] (obj_children r)])"

fun pushClones :: "nat \<Rightarrow> store \<Rightarrow> nat \<Rightarrow> nat \<Rightarrow> nat \<Rightarrow> store option" where
  \<comment> \<open>\<open>for (const child of block.children) rule.children.push(cloneRule(child))\<close>, from the
      index \<open>i\<close> on; the array is read again in every pass\<close>
  "pushClones 0 h target block i = None"
| "pushClones (Suc fuel) h target block i =
     (let kids = obj_children (deref h block)
      in if i < length kids then
           (case cloneRule fuel h (kids ! i) of
              None \<Rightarrow> None
            | Some (c, h1) \<Rightarrow> pushClones fuel (pushChild h1 target c) target block (i + 1))
         else Some h)"

definition inlineBlock :: "nat \<Rightarrow> store \<Rightarrow> nat \<Rightarrow> nat \<Rightarrow> store option" where
  \<comment> \<open>the three statements that append the classes, the declarations and the cloned
      children of \<open>block\<close> to \<open>target\<close>\<close>
  "inlineBlock fuel h target block =
     (let h1 = pushClasses h target (obj_classes (deref h block));
          h2 = pushDeclarations h1 target (obj_declarations (deref h1 block))
      in pushClones fuel h2 target block 0)"

definition setAdd :: "string \<Rightarrow> string list \<Rightarrow> string list" where
  "setAdd x xs = (if x \<in> set xs then xs else xs @ [x])"

definition setDelete :: "string \<Rightarrow> string list \<Rightarrow> string list" where
  "setDelete x xs = removeAll x xs"

record resolverEnv =
  registry :: "(string \<times> nat) list"
  dir :: string
  resolvePath :: "string \<Rightarrow> string \<Rightarrow> string"
  fileExports :: "string \<Rightarrow> nat list"

record resolverState =
  objects :: store
  resolving :: "string list"
  deps :: "string list"
  warned :: "warning list"

definition warn :: "warning \<Rightarrow> resolverState \<Rightarrow> resolverState" where
  "warn w st = st\<lparr>warned := warned st @ [w]\<rparr>"

definition useFrom :: "UseDirective \<Rightarrow> string option" where
  \<comment> \<open>the path of \<open>use.from\<close> when the test \<open>use.from ? ... : ...\<close> holds: an empty
      string counts as no path\<close>
  "useFrom use =
     (case UseDirective.from' use of
        Some p \<Rightarrow> if p = [] then None else Some p
      | None \<Rightarrow> None)"

definition cycleKey :: "resolverEnv \<Rightarrow> UseDirective \<Rightarrow> string" where
  "cycleKey env use =
     (case useFrom use of
        Some p \<Rightarrow> resolvePath env (dir env) p @ ''#'' @ UseDirective.name use
      | None \<Rightarrow> UseDirective.name use)"

definition lookupBlock ::
  "resolverEnv \<Rightarrow> bool \<Rightarrow> nat \<Rightarrow> UseDirective \<Rightarrow> resolverState \<Rightarrow> nat option \<times> resolverState" where
  \<comment> \<open>the block that a use names, from a file or from the registry, with the warning
      when there is none; \<open>inExport\<close> tells which of the two functions is running\<close>
  "lookupBlock env inExport target use st =
     (case useFrom use of
        Some p \<Rightarrow>
          (let absPath = resolvePath env (dir env) p;
               st1 = st\<lparr>deps := setAdd absPath (deps st)\<rparr>;
               block = find (\<lambda>e. obj_label (deref (objects st1) e) = UseDirective.name use)
                         (fileExports env absPath)
           in (block,
               if block = None then
                 warn (if inExport
                       then UseNotFoundInFileInExport (obj_label (deref (objects st1) target))
                              (UseDirective.name use) p
                       else UseNotFoundInFile (UseDirective.name use) p) st1
               else st1))
      | None \<Rightarrow>
          (let block = map_of (registry env) (UseDirective.name use)
           in (block,
               if block = None then
                 warn (if inExport
                       then UseNotDefinedInExport (obj_label (deref (objects st) target))
                              (UseDirective.name use)
                       else UseNotDefined (UseDirective.name use)) st
               else st)))"

fun resolveUseLoop ::
  "nat \<Rightarrow> resolverEnv \<Rightarrow> bool \<Rightarrow> nat \<Rightarrow> UseDirective list \<Rightarrow> resolverState
   \<Rightarrow> resolverState option" where
  \<comment> \<open>the loop \<open>for (const use of rule.uses)\<close> of \<open>resolveUsesInRules\<close> and the loop
      \<open>for (const use of exp.uses)\<close> of \<open>resolveUsesInExport\<close>, which differ in their
      messages only\<close>
  "resolveUseLoop fuel env inExport target [] st = Some st"
| "resolveUseLoop fuel env inExport target (use # rest) st =
     (let key = cycleKey env use
      in if key \<in> set (resolving st) then
           resolveUseLoop fuel env inExport target rest
             (warn (if inExport
                    then CircularUseInExport (obj_label (deref (objects st) target))
                           (UseDirective.name use)
                    else CircularUse (UseDirective.name use)) st)
         else
           (case lookupBlock env inExport target use st of
              (None, st1) \<Rightarrow> resolveUseLoop fuel env inExport target rest st1
            | (Some block, st1) \<Rightarrow>
                (let st2 = st1\<lparr>resolving := setAdd key (resolving st1)\<rparr>
                 in case inlineBlock fuel (objects st2) target block of
                      None \<Rightarrow> None
                    | Some h \<Rightarrow>
                        resolveUseLoop fuel env inExport target rest
                          (st2\<lparr>objects := h, resolving := setDelete key (resolving st2)\<rparr>))))"

datatype ruleArray = Fixed "nat list" | ChildrenOf nat

fun readArray :: "store \<Rightarrow> ruleArray \<Rightarrow> nat list" where
  "readArray h (Fixed rs) = rs"
| "readArray h (ChildrenOf a) = obj_children (deref h a)"

fun resolveUsesInRules ::
  "nat \<Rightarrow> resolverEnv \<Rightarrow> ruleArray \<Rightarrow> nat \<Rightarrow> resolverState \<Rightarrow> resolverState option" where
  \<comment> \<open>the loop \<open>for (const rule of rules)\<close> from the index \<open>i\<close> on; \<open>arr\<close> is the array
      \<open>result.rules\<close>, which no object holds, or the \<open>children\<close> of an object\<close>
  "resolveUsesInRules 0 env arr i st = None"
| "resolveUsesInRules (Suc fuel) env arr i st =
     (let rs = readArray (objects st) arr
      in if i < length rs then
           (let rule = rs ! i
            in case resolveUseLoop fuel env False rule (obj_uses (deref (objects st) rule)) st of
                 None \<Rightarrow> None
               | Some st1 \<Rightarrow>
                   (case resolveUsesInRules fuel env (ChildrenOf rule) 0
                           (st1\<lparr>objects := clearUses (objects st1) rule\<rparr>) of
                      None \<Rightarrow> None
                    | Some st2 \<Rightarrow> resolveUsesInRules fuel env arr (i + 1) st2))
         else Some st)"

definition resolveUsesInExport ::
  "nat \<Rightarrow> resolverEnv \<Rightarrow> nat \<Rightarrow> resolverState \<Rightarrow> resolverState option" where
  "resolveUsesInExport fuel env exp st =
     (case resolveUseLoop fuel env True exp (obj_uses (deref (objects st) exp)) st of
        None \<Rightarrow> None
      | Some st1 \<Rightarrow>
          resolveUsesInRules fuel env (ChildrenOf exp) 0
            (st1\<lparr>objects := clearUses (objects st1) exp\<rparr>))"

definition registrySet :: "string \<Rightarrow> nat \<Rightarrow> (string \<times> nat) list \<Rightarrow> (string \<times> nat) list" where
  \<comment> \<open>\<open>registry.set(k, v)\<close>: a key that is present keeps its place\<close>
  "registrySet k v m =
     (if k \<in> fst ` set m then map (\<lambda>(k', v'). if k' = k then (k, v) else (k', v')) m
      else m @ [(k, v)])"

fun registerExports ::
  "store \<Rightarrow> nat list \<Rightarrow> (string \<times> nat) list \<times> warning list
   \<Rightarrow> (string \<times> nat) list \<times> warning list" where
  "registerExports h [] acc = acc"
| "registerExports h (e # es) (reg, ws) =
     (let nm = obj_label (deref h e)
      in registerExports h es
           (registrySet nm e reg,
            if nm \<in> fst ` set reg then ws @ [DuplicateExport nm] else ws))"

fun registerNames ::
  "store \<Rightarrow> string \<Rightarrow> nat list \<Rightarrow> string list \<Rightarrow> (string \<times> nat) list \<times> warning list
   \<Rightarrow> (string \<times> nat) list \<times> warning list" where
  \<comment> \<open>the loop over \<open>imp.names\<close>\<close>
  "registerNames h src found [] acc = acc"
| "registerNames h src found (nm # nms) (reg, ws) =
     (case find (\<lambda>e. obj_label (deref h e) = nm) found of
        Some e \<Rightarrow> registerNames h src found nms (registrySet nm e reg, ws)
      | None \<Rightarrow>
          registerNames h src found nms
            (reg, ws @ [ImportNameNotFound nm src
                          (foldl (\<lambda>seen e. setAdd (obj_label (deref h e)) seen) [] found)]))"

fun registerImports ::
  "store \<Rightarrow> string \<Rightarrow> (string \<Rightarrow> string \<Rightarrow> string) \<Rightarrow> (string \<Rightarrow> nat list)
   \<Rightarrow> ImportDirective list \<Rightarrow> (string \<times> nat) list \<times> string list \<times> warning list
   \<Rightarrow> (string \<times> nat) list \<times> string list \<times> warning list" where
  "registerImports h d res files [] acc = acc"
| "registerImports h d res files (imp # imps) (reg, ds, ws) =
     (let absPath = res d (ImportDirective.from' imp)
      in case registerNames h (ImportDirective.from' imp) (files absPath)
                (ImportDirective.names imp) (reg, ws) of
           (reg1, ws1) \<Rightarrow> registerImports h d res files imps (reg1, setAdd absPath ds, ws1))"

fun resolveExports ::
  "nat \<Rightarrow> resolverEnv \<Rightarrow> nat list \<Rightarrow> resolverState \<Rightarrow> resolverState option" where
  \<comment> \<open>\<open>for (const [, exp] of registry) resolveUsesInExport(exp, registry, dir, new Set(), ...)\<close>\<close>
  "resolveExports fuel env [] st = Some st"
| "resolveExports fuel env (exp # exps) st =
     (case resolveUsesInExport fuel env exp (st\<lparr>resolving := []\<rparr>) of
        None \<Rightarrow> None
      | Some st1 \<Rightarrow> resolveExports fuel env exps st1)"

definition resolveDirectives ::
  "nat \<Rightarrow> (string \<Rightarrow> string \<Rightarrow> string) \<Rightarrow> (string \<Rightarrow> nat list) \<Rightarrow> string
   \<Rightarrow> nat list \<Rightarrow> nat list \<Rightarrow> ImportDirective list \<Rightarrow> store \<Rightarrow> resolverState option" where
  \<comment> \<open>\<open>roots\<close>, \<open>exps\<close> and \<open>imps\<close> are the three fields of \<open>result\<close>, \<open>d\<close> is
      \<open>dirname(filePath)\<close>; the rules returned are the objects of \<open>roots\<close> in the final store\<close>
  "resolveDirectives fuel res files d roots exps imps h =
     (case registerExports h exps ([], []) of
        (reg0, ws0) \<Rightarrow>
          (case registerImports h d res files imps (reg0, [], ws0) of
             (reg, ds, ws) \<Rightarrow>
               (let env = \<lparr>registry = reg, dir = d, resolvePath = res, fileExports = files\<rparr>;
                    st0 = \<lparr>objects = h, resolving = [], deps = ds, warned = ws\<rparr>
                in case resolveExports fuel env (map snd reg) st0 of
                     None \<Rightarrow> None
                   | Some st1 \<Rightarrow>
                       resolveUsesInRules fuel env (Fixed roots) 0 (st1\<lparr>resolving := []\<rparr>))))"

definition isCircularWarning :: "warning \<Rightarrow> bool" where
  "isCircularWarning w =
     (case w of CircularUse n \<Rightarrow> True | CircularUseInExport e n \<Rightarrow> True | _ \<Rightarrow> False)"

fun useFree :: "nat \<Rightarrow> store \<Rightarrow> nat \<Rightarrow> bool" where
  \<comment> \<open>the rule at \<open>a\<close> and the rules below it, which are fewer than \<open>n\<close> levels, have no
      use left\<close>
  "useFree 0 h a = False"
| "useFree (Suc n) h a =
     (a < length h \<and> obj_uses (deref h a) = []
      \<and> list_all (useFree n h) (obj_children (deref h a)))"

fun noUses :: "StyleRule \<Rightarrow> bool" and noUsesIn :: "StyleRule list \<Rightarrow> bool" where
  \<comment> \<open>the \<open>uses\<close> of the rule, and of every rule below it, is empty\<close>
  "noUses (StyleRule sel cls decls us kids) = (us = [] \<and> noUsesIn kids)"
| "noUsesIn [] = True"
| "noUsesIn (r # rs) = (noUses r \<and> noUsesIn rs)"

definition exCycle :: string where
  "exCycle = ''@export a { x'' @ [newline] @ ''@use b }'' @ [newline]
             @ ''@export b { y'' @ [newline] @ ''@use a }''"

definition exSelf :: string where
  "exSelf = ''@export a { @use a'' @ [newline] @ ''div { p } }''"

definition noPath :: "string \<Rightarrow> string \<Rightarrow> string" where
  "noPath d p = d @ ''/'' @ p"

definition noFiles :: "string \<Rightarrow> nat list" where
  "noFiles p = []"

definition exCycleStore :: store where
  "exCycleStore =
     [RuleObject ''a'' [''x''] [] [UseDirective ''b'' None] [],
      RuleObject ''b'' [''y''] [] [UseDirective ''a'' None] []]"

definition exSelfStore :: store where
  "exSelfStore =
     [RuleObject ''div'' [''p''] [] [] [],
      RuleObject ''a'' [] [] [UseDirective ''a'' None] [0]]"

definition exResolved :: "StyleRule list" where
  \<open>exResolved =
     [StyleRule ''&'' [''flex'', ''p-4''] [''color: red;''] []
        [StyleRule ''> div'' [''mt-2''] [] [] [StyleRule ''span'' [] [] [] []],
         StyleRule ''p'' [''text-sm''] [] [] []]]\<close>

definition exEnv :: resolverEnv where
  "exEnv = \<lparr>registry = [(''btn'', 0)], dir = ''/src'', resolvePath = noPath,
             fileExports = noFiles\<rparr>"

section \<open>Results and raised errors\<close>

lemma error_is_TypeError: "(err :: error) = TypeError"
  by (cases err) simp

lemma not_TypeError_iff: "(r \<noteq> Inl TypeError) = (\<exists>v. r = Inr v)"
  by (cases r) (auto simp: error_is_TypeError)

lemma result_cases:
  obtains (raised) "r = Inl TypeError" | (returned) v where "r = Inr v"
  by (cases r) (auto simp: error_is_TypeError)

lemma filterE_eq:
  "filterE f xs =
     (if \<exists>x\<in>set xs. f x = Inl TypeError then Inl TypeError
      else Inr (filter (\<lambda>x. f x = Inr True) xs))"
proof (induction xs)
  case Nil
  show ?case by simp
next
  case (Cons x xs)
  show ?case
    by (cases "f x" rule: result_cases) (auto simp: Cons error_is_TypeError)
qed

lemma someE_all_returned:
  "\<forall>x\<in>set xs. f x \<noteq> Inl TypeError \<Longrightarrow> someE f xs = Inr (\<exists>x\<in>set xs. f x = Inr True)"
proof (induction xs)
  case Nil
  show ?case by simp
next
  case (Cons x xs)
  then show ?case
    by (cases "f x" rule: result_cases) auto
qed

lemma someE_True: "someE f xs = Inr True \<Longrightarrow> \<exists>x\<in>set xs. f x = Inr True"
  by (induction xs) (auto split: sum.splits if_splits)

lemma someE_False: "someE f xs = Inr False \<Longrightarrow> \<forall>x\<in>set xs. f x = Inr False"
  by (induction xs) (auto split: sum.splits if_splits)

lemma someE_raised: "someE f xs = Inl err \<Longrightarrow> \<exists>x\<in>set xs. f x = Inl TypeError"
  by (induction xs) (auto split: sum.splits if_splits simp: error_is_TypeError)

lemma concatMapE_Nil_list: "concatMapE f [] = Inr []"
  by simp

lemma foldE_Nil_list: "foldE f acc [] = Inr acc"
  by simp

section \<open>Properties of the An+B evaluator\<close>

lemma js_rem_2_odd: "1 \<le> p \<Longrightarrow> (js_rem p 2 = 1) = odd p"
  by (auto simp: js_rem_def sgn_if odd_iff_mod_2_eq_one)

lemma js_rem_2_even: "(js_rem p 2 = 0) = even p"
  by (auto simp: js_rem_def sgn_if even_iff_mod_2_eq_zero)

lemma js_rem_minus_one: "js_rem r (- 1) = 0"
  by (simp add: js_rem_def)

lemma anb_odd: "1 \<le> p \<Longrightarrow> matchesAnPlusB ''odd'' p = odd p"
proof -
  assume p: "1 \<le> p"
  have s: "toLowerCase (trim ''odd'') = ''odd''" by code_simp
  show ?thesis unfolding matchesAnPlusB_def s Let_def using js_rem_2_odd[OF p] by simp
qed

lemma anb_even: "matchesAnPlusB ''even'' p = even p"
proof -
  have s: "toLowerCase (trim ''even'') = ''even''" by code_simp
  show ?thesis unfolding matchesAnPlusB_def s Let_def using js_rem_2_even by simp
qed

lemma anb_2n_plus_1: "1 \<le> p \<Longrightarrow> matchesAnPlusB ''2n+1'' p = odd p"
proof -
  assume p: "1 \<le> p"
  have s: "toLowerCase (trim ''2n+1'') = ''2n+1''" by code_simp
  have i: "\<not> isIntegerLiteral ''2n+1''" by code_simp
  have m: "matchAnB ''2n+1'' = Some (''2'', Some ''+1'')" by code_simp
  have a: "parseInt ''2'' = 2" by code_simp
  have b: "parseInt (filter (\<lambda>c. \<not> isSpace c) ''+1'') = 1" by code_simp
  have "matchesAnPlusB ''2n+1'' p = (p - 1 = 0 \<or> (p - 1 > 0 \<and> js_rem (p - 1) 2 = 0))"
    unfolding matchesAnPlusB_def s Let_def using i m a b by auto
  also have "\<dots> = odd p" using p js_rem_2_even[of "p - 1"] by auto
  finally show ?thesis .
qed

lemma anb_3: "matchesAnPlusB ''3'' p = (p = 3)"
proof -
  have s: "toLowerCase (trim ''3'') = ''3''" by code_simp
  have i: "isIntegerLiteral ''3''" by code_simp
  have a: "parseInt ''3'' = 3" by code_simp
  show ?thesis unfolding matchesAnPlusB_def s Let_def using i a by auto
qed

lemma anb_minus_n_plus_3: "matchesAnPlusB ''-n+3'' p = (p \<le> 3)"
proof -
  have s: "toLowerCase (trim ''-n+3'') = ''-n+3''" by code_simp
  have i: "\<not> isIntegerLiteral ''-n+3''" by code_simp
  have m: "matchAnB ''-n+3'' = Some (''-'', Some ''+3'')" by code_simp
  have b: "parseInt (filter (\<lambda>c. \<not> isSpace c) ''+3'') = 3" by code_simp
  have "matchesAnPlusB ''-n+3'' p = (p - 3 = 0 \<or> (p - 3 \<le> 0 \<and> js_rem (p - 3) (- 1) = 0))"
    unfolding matchesAnPlusB_def s Let_def using i m b by auto
  also have "\<dots> = (p \<le> 3)" using js_rem_minus_one by auto
  finally show ?thesis .
qed

lemma anb_unparsable: "anbUnparsable s \<Longrightarrow> matchesAnPlusB s p"
  by (simp add: anbUnparsable_def matchesAnPlusB_def Let_def)

lemma nth_family_eval:
  assumes v: "v \<in> {'':nth-child'', '':nth-last-child'', '':nth-of-type'', '':nth-last-of-type''}"
  shows "matchStructuralPseudo e v nodes =
     (case extractPseudoArg nodes of
        None \<Rightarrow> True
      | Some arg \<Rightarrow>
          if arg = [] then True
          else
            (let siblings = getRuntimeSiblings e;
                 pool = (if v = '':nth-of-type'' \<or> v = '':nth-last-of-type''
                         then filter (\<lambda>s. tag (node s) = tag (node e)) siblings
                         else siblings);
                 pos = (if v = '':nth-last-child'' \<or> v = '':nth-last-of-type''
                        then int (length pool) - indexOf pool e
                        else indexOf pool e + 1)
             in matchesAnPlusB arg pos))"
proof -
  consider "v = '':nth-child''" | "v = '':nth-last-child''" | "v = '':nth-of-type''"
    | "v = '':nth-last-of-type''"
    using v by blast
  then show ?thesis
  proof cases
    case 1
    show ?thesis unfolding 1 matchStructuralPseudo_def RUNTIME_PSEUDOS_def
      by (simp add: Let_def split: option.splits)
  next
    case 2
    show ?thesis unfolding 2 matchStructuralPseudo_def RUNTIME_PSEUDOS_def
      by (simp add: Let_def split: option.splits)
  next
    case 3
    show ?thesis unfolding 3 matchStructuralPseudo_def RUNTIME_PSEUDOS_def
      by (simp add: Let_def split: option.splits)
  next
    case 4
    show ?thesis unfolding 4 matchStructuralPseudo_def RUNTIME_PSEUDOS_def
      by (simp add: Let_def split: option.splits)
  qed
qed

lemma nth_unparsable_matches:
  assumes v: "v \<in> {'':nth-child'', '':nth-last-child'', '':nth-of-type'', '':nth-last-of-type''}"
    and arg: "extractPseudoArg nodes = Some a" and un: "anbUnparsable a"
  shows "matchStructuralPseudo e v nodes"
  unfolding nth_family_eval[OF v] arg using un by (simp add: Let_def anb_unparsable)

text \<open>
  Claim C3. At a 1-based position \<open>p\<close> the An+B evaluator accepts \<open>odd\<close> exactly at
  the odd positions, \<open>even\<close> exactly at the even ones, \<open>2n+1\<close> exactly where it
  accepts \<open>odd\<close>, \<open>3\<close> at position 3 only and \<open>-n+3\<close> at positions 1, 2 and 3 only;
  an argument that is none of the forms it reads is accepted at every position, and
  the \<open>:nth-*\<close> pseudo-classes then match instead of rejecting the rule.
\<close>

theorem C3_an_plus_b:
  assumes "1 \<le> p"
  shows "(matchesAnPlusB ''odd'' p \<longleftrightarrow> odd p)
       \<and> (matchesAnPlusB ''even'' p \<longleftrightarrow> even p)
       \<and> (matchesAnPlusB ''2n+1'' p \<longleftrightarrow> matchesAnPlusB ''odd'' p)
       \<and> (matchesAnPlusB ''3'' p \<longleftrightarrow> p = 3)
       \<and> (matchesAnPlusB ''-n+3'' p \<longleftrightarrow> p \<in> {1, 2, 3})
       \<and> (\<forall>s. anbUnparsable s \<longrightarrow> matchesAnPlusB s p)
       \<and> (\<forall>s e v raw ns.
             anbUnparsable s
             \<and> v \<in> {'':nth-child'', '':nth-last-child'', '':nth-of-type'', '':nth-last-of-type''}
             \<and> trim raw = s
             \<longrightarrow> matchStructuralPseudo e v [Selector raw ns])"
proof (intro conjI)
  show "matchesAnPlusB ''odd'' p \<longleftrightarrow> odd p" using assms by (rule anb_odd)
  show "matchesAnPlusB ''even'' p \<longleftrightarrow> even p" by (rule anb_even)
  show "matchesAnPlusB ''2n+1'' p \<longleftrightarrow> matchesAnPlusB ''odd'' p"
    using anb_odd[OF assms] anb_2n_plus_1[OF assms] by simp
  show "matchesAnPlusB ''3'' p \<longleftrightarrow> p = 3" by (rule anb_3)
  show "matchesAnPlusB ''-n+3'' p \<longleftrightarrow> p \<in> {1, 2, 3}"
    using assms by (auto simp: anb_minus_n_plus_3)
  show "\<forall>s. anbUnparsable s \<longrightarrow> matchesAnPlusB s p"
    by (simp add: anb_unparsable)
  show "\<forall>s e v raw ns.
             anbUnparsable s
             \<and> v \<in> {'':nth-child'', '':nth-last-child'', '':nth-of-type'', '':nth-last-of-type''}
             \<and> trim raw = s
             \<longrightarrow> matchStructuralPseudo e v [Selector raw ns]"
  proof (intro allI impI, goal_cases)
    case (1 s e v raw ns)
    have x: "extractPseudoArg [Selector raw ns] = Some s"
      using 1 by (simp add: extractPseudoArg_def)
    show ?case
      using nth_unparsable_matches[of v "[Selector raw ns]" s e] 1 x by blast
  qed
qed

theorem C3_an_plus_b_witness:
  "(1::int) \<le> 3 \<and> matchesAnPlusB ''odd'' 3 \<and> \<not> matchesAnPlusB ''even'' 3
   \<and> matchesAnPlusB ''2n+1'' 3 \<and> matchesAnPlusB ''3'' 3 \<and> matchesAnPlusB ''-n+3'' 3
   \<and> anbUnparsable ''foo'' \<and> matchesAnPlusB ''foo'' 3
   \<and> trim '' foo '' = ''foo''
   \<and> matchStructuralPseudo (El (TemplateNode ''li'' None [] [] [] None) 0 None)
        '':nth-child'' [Selector '' foo '' [Tag ''foo'']]"
proof -
  have u: "anbUnparsable ''foo''" by code_simp
  have t: "trim '' foo '' = ''foo''" by code_simp
  have c: "(matchesAnPlusB ''odd'' 3 \<longleftrightarrow> odd (3::int))
       \<and> (matchesAnPlusB ''even'' 3 \<longleftrightarrow> even (3::int))
       \<and> (matchesAnPlusB ''2n+1'' 3 \<longleftrightarrow> matchesAnPlusB ''odd'' 3)
       \<and> (matchesAnPlusB ''3'' 3 \<longleftrightarrow> (3::int) = 3)
       \<and> (matchesAnPlusB ''-n+3'' 3 \<longleftrightarrow> (3::int) \<in> {1, 2, 3})
       \<and> (\<forall>s. anbUnparsable s \<longrightarrow> matchesAnPlusB s 3)
       \<and> (\<forall>s e v raw ns.
             anbUnparsable s
             \<and> v \<in> {'':nth-child'', '':nth-last-child'', '':nth-of-type'', '':nth-last-of-type''}
             \<and> trim raw = s
             \<longrightarrow> matchStructuralPseudo e v [Selector raw ns])"
    by (rule C3_an_plus_b) simp
  have n: "matchStructuralPseudo (El (TemplateNode ''li'' None [] [] [] None) 0 None)
        '':nth-child'' [Selector '' foo '' [Tag ''foo'']]"
    using c u t by blast
  show ?thesis using c u t n by simp
qed

section \<open>Properties of the conditional sibling model\<close>

lemma first_child_not_runtime: "'':first-child'' \<notin> set RUNTIME_PSEUDOS"
  by (simp add: RUNTIME_PSEUDOS_def)

lemma last_child_not_runtime: "'':last-child'' \<notin> set RUNTIME_PSEUDOS"
  by (simp add: RUNTIME_PSEUDOS_def)

lemma only_child_not_runtime: "'':only-child'' \<notin> set RUNTIME_PSEUDOS"
  by (simp add: RUNTIME_PSEUDOS_def)

lemma getRuntimeSiblings_root: "parent e = None \<Longrightarrow> getRuntimeSiblings e = [e]"
  by (simp add: getRuntimeSiblings_def)

lemma getRuntimeSiblings_child:
  "parent e = Some p \<Longrightarrow>
   getRuntimeSiblings e = filter (\<lambda>sib. \<not> isConditionalAlternative e sib) (childrenOf p)"
  unfolding getRuntimeSiblings_def isConditionalAlternative_def
  by (auto intro!: filter_cong split: option.splits prod.splits)

lemma childrenOf_three:
  "TemplateNode.children (node p) = [A, B, C] \<Longrightarrow>
   childrenOf p = [El A 0 (Some p), El B 1 (Some p), El C 2 (Some p)]"
  by (simp add: childrenOf_def)

lemma rootEls_two: "rootEls [r1, r2] = [El r1 0 None, El r2 1 None]"
  by (simp add: rootEls_def)

text \<open>
  Claim C10. A node with no parent has itself as its only runtime sibling, so it
  satisfies \<open>:first-child\<close>, \<open>:last-child\<close> and \<open>:only-child\<close>, whatever the other
  root nodes of the template are.
\<close>

theorem C10_root_level_nodes:
  assumes "parent e = None"
  shows "getRuntimeSiblings e = [e]
       \<and> matchStructuralPseudo e '':first-child'' ns
       \<and> matchStructuralPseudo e '':last-child'' ns
       \<and> matchStructuralPseudo e '':only-child'' ns
       \<and> matchesCompound e [Pseudo '':first-child'' ns, Pseudo '':last-child'' ns,
                              Pseudo '':only-child'' ns] = Inr True"
proof -
  have s: "getRuntimeSiblings e = [e]" using assms by (rule getRuntimeSiblings_root)
  have f: "matchStructuralPseudo e '':first-child'' ns"
    by (simp add: matchStructuralPseudo_def first_child_not_runtime s)
  have l: "matchStructuralPseudo e '':last-child'' ns"
    by (simp add: matchStructuralPseudo_def last_child_not_runtime s)
  have o: "matchStructuralPseudo e '':only-child'' ns"
    by (simp add: matchStructuralPseudo_def only_child_not_runtime s)
  show ?thesis using s f l o by simp
qed

theorem C10_root_level_nodes_witness:
  "rootEls [TemplateNode ''h1'' None [] [] [] None, TemplateNode ''p'' None [] [] [] None]
     = [El (TemplateNode ''h1'' None [] [] [] None) 0 None,
        El (TemplateNode ''p'' None [] [] [] None) 1 None]
   \<and> parent (El (TemplateNode ''p'' None [] [] [] None) 1 None) = None
   \<and> getRuntimeSiblings (El (TemplateNode ''p'' None [] [] [] None) 1 None)
     = [El (TemplateNode ''p'' None [] [] [] None) 1 None]
   \<and> matchesCompound (El (TemplateNode ''p'' None [] [] [] None) 1 None)
       [Pseudo '':first-child'' [], Pseudo '':last-child'' [], Pseudo '':only-child'' []]
     = Inr True"
  using C10_root_level_nodes[of "El (TemplateNode ''p'' None [] [] [] None) 1 None" "[]"]
        rootEls_two
  by simp

text \<open>
  Claim C2. The runtime sibling list of a node with a parent is the parent's children
  without the conditional alternatives of the node. For raw children
  \<open>[A(chain 1, branch 0), B(chain 1, branch 1), C]\<close> the list seen from \<open>A\<close> is
  \<open>[A, C]\<close> and from \<open>B\<close> is \<open>[B, C]\<close>, both \<open>A\<close> and \<open>B\<close> are first children, and
  the adjacent-sibling step from \<open>A\<close> tests \<open>C\<close> alone: it reaches \<open>C\<close> when \<open>C\<close>
  matches the compound, raises when that test raises, and never reaches \<open>B\<close>.
\<close>

theorem C2_runtime_siblings:
  assumes kids: "TemplateNode.children (node p) = [A, B, C]"
    and cA: "conditional A = Some (1, 0)"
    and cB: "conditional B = Some (1, 1)"
    and cC: "conditional C = None"
  shows "(\<forall>n q. parent n = Some q \<longrightarrow>
            getRuntimeSiblings n = filter (\<lambda>s. \<not> isConditionalAlternative n s) (childrenOf q))
       \<and> getRuntimeSiblings (El A 0 (Some p)) = [El A 0 (Some p), El C 2 (Some p)]
       \<and> getRuntimeSiblings (El B 1 (Some p)) = [El B 1 (Some p), El C 2 (Some p)]
       \<and> matchStructuralPseudo (El A 0 (Some p)) '':first-child'' ns
       \<and> matchStructuralPseudo (El B 1 (Some p)) '':first-child'' ns
       \<and> matchAdjacentSiblingViaParent [El A 0 (Some p)] ps
           = (case matchesCompound (El C 2 (Some p)) ps of
                Inl err \<Rightarrow> Inl err
              | Inr ok \<Rightarrow> Inr (if ok then [El C 2 (Some p)] else []))
       \<and> (\<forall>reached. matchAdjacentSiblingViaParent [El A 0 (Some p)] ps = Inr reached
             \<longrightarrow> El B 1 (Some p) \<notin> set reached)"
proof -
  have a: "getRuntimeSiblings (El A 0 (Some p)) = [El A 0 (Some p), El C 2 (Some p)]"
    by (simp add: getRuntimeSiblings_def childrenOf_three[OF kids] cA cB cC)
  have b: "getRuntimeSiblings (El B 1 (Some p)) = [El B 1 (Some p), El C 2 (Some p)]"
    by (simp add: getRuntimeSiblings_def childrenOf_three[OF kids] cA cB cC)
  have fa: "matchStructuralPseudo (El A 0 (Some p)) '':first-child'' ns"
    using a by (simp add: matchStructuralPseudo_def first_child_not_runtime)
  have fb: "matchStructuralPseudo (El B 1 (Some p)) '':first-child'' ns"
    using b by (simp add: matchStructuralPseudo_def first_child_not_runtime)
  have c: "matchAdjacentSiblingViaParent [El A 0 (Some p)] ps
         = (case matchesCompound (El C 2 (Some p)) ps of
                Inl err \<Rightarrow> Inl err
              | Inr ok \<Rightarrow> Inr (if ok then [El C 2 (Some p)] else []))"
    by (simp add: childrenOf_three[OF kids] isConditionalAlternative_def cA cB cC
             split: sum.splits)
  have nb: "\<forall>reached. matchAdjacentSiblingViaParent [El A 0 (Some p)] ps = Inr reached
             \<longrightarrow> El B 1 (Some p) \<notin> set reached"
    unfolding c by (auto split: sum.splits if_splits)
  show ?thesis using a b fa fb c nb getRuntimeSiblings_child by blast
qed

theorem C2_runtime_siblings_witness:
  "TemplateNode.children (node exP) = [exA, exB, exC]
   \<and> conditional exA = Some (1, 0) \<and> conditional exB = Some (1, 1) \<and> conditional exC = None
   \<and> parent (El exA 0 (Some exP)) = Some exP
   \<and> getRuntimeSiblings (El exA 0 (Some exP)) = [El exA 0 (Some exP), El exC 2 (Some exP)]
   \<and> getRuntimeSiblings (El exB 1 (Some exP)) = [El exB 1 (Some exP), El exC 2 (Some exP)]
   \<and> matchStructuralPseudo (El exA 0 (Some exP)) '':first-child'' []
   \<and> matchStructuralPseudo (El exB 1 (Some exP)) '':first-child'' []
   \<and> matchAdjacentSiblingViaParent [El exA 0 (Some exP)] [Tag ''c''] = Inr [El exC 2 (Some exP)]
   \<and> matchAdjacentSiblingViaParent [El exA 0 (Some exP)] [Tag ''b''] = Inr []
   \<and> matchSelectorPart [Tag ''a'', Combinator ''+'', Tag ''c''] [exP] None
     = Inr [El exC 2 (Some exP)]
   \<and> matchSelectorPart [Tag ''a'', Combinator ''+'', Tag ''b''] [exP] None = Inr []"
proof -
  have k: "TemplateNode.children (node exP) = [exA, exB, exC]" by (simp add: exP_def)
  have cA: "conditional exA = Some (1, 0)" by (simp add: exA_def)
  have cB: "conditional exB = Some (1, 1)" by (simp add: exB_def)
  have cC: "conditional exC = None" by (simp add: exC_def)
  have mc: "matchesCompound (El exC 2 (Some exP)) [Tag ''c''] = Inr True" by (simp add: exC_def)
  have mb: "matchesCompound (El exC 2 (Some exP)) [Tag ''b''] = Inr False" by (simp add: exC_def)
  have e1: "matchSelectorPart [Tag ''a'', Combinator ''+'', Tag ''c''] [exP] None
            = Inr [El exC 2 (Some exP)]" by code_simp
  have e2: "matchSelectorPart [Tag ''a'', Combinator ''+'', Tag ''b''] [exP] None = Inr []"
    by code_simp
  show ?thesis
    using C2_runtime_siblings[OF k cA cB cC, of "[]" "[Tag ''c'']"]
          C2_runtime_siblings[OF k cA cB cC, of "[]" "[Tag ''b'']"]
          k cA cB cC mc mb e1 e2
    by simp
qed

section \<open>Properties of combinator chaining\<close>

lemma splitLoop_keeps_head:
  "segs \<noteq> [] \<Longrightarrow> splitLoop ns segs comb cur \<noteq> [] \<and> hd (splitLoop ns segs comb cur) = hd segs"
  by (induction ns arbitrary: segs comb cur) (auto split: SelectorNode.splits)

lemma splitLoop_first_combinator:
  "cur \<noteq> [] \<Longrightarrow>
   splitLoop ns [] comb cur \<noteq> [] \<and> combinator (hd (splitLoop ns [] comb cur)) = comb"
proof (induction ns arbitrary: cur)
  case Nil
  then show ?case by simp
next
  case (Cons n ns)
  show ?case
  proof (cases n)
    case (Combinator v)
    then show ?thesis
      using Cons.prems
            splitLoop_keeps_head[of "[\<lparr>combinator = comb, parts = cur\<rparr>]" ns "trim v" "[]"]
      by simp
  qed (use Cons in simp_all)
qed

lemma split_leading_combinator:
  assumes "isCompoundPart part"
  shows "splitIntoCombinatorSegments (Combinator c # part # rest) \<noteq> []
       \<and> combinator (hd (splitIntoCombinatorSegments (Combinator c # part # rest))) = trim c"
proof -
  have "splitIntoCombinatorSegments (Combinator c # part # rest) = splitLoop rest [] (trim c) [part]"
    using assms by (cases part) (simp_all add: splitIntoCombinatorSegments_def isCompoundPart_def)
  then show ?thesis using splitLoop_first_combinator[of "[part]" rest "trim c"] by simp
qed

lemma chainSegments_empty: "chainSegments [] segs = Inr []"
  by (induction segs) simp_all

lemma matchSelectorPart_sibling_first:
  assumes "splitIntoCombinatorSegments nodes = first # segs"
    and "combinator first = ''+'' \<or> combinator first = ''~''"
  shows "matchSelectorPart nodes scope pm = Inr []"
proof -
  have "nodes \<noteq> [Nesting]"
    using assms(1) by (auto simp: splitIntoCombinatorSegments_def)
  then show ?thesis
    using assms
    by (auto simp: matchSelectorPart_def matchAdjacentSibling_def matchGeneralSibling_def
                   chainSegments_empty)
qed

text \<open>
  Claim C9. A selector whose first combinator segment is introduced by \<open>+\<close> or \<open>~\<close>
  matches nothing, in every scope: the first-segment sibling matchers run with no
  anchors, and every later segment maps the empty set to the empty set. No compound is
  tested on the way, so the call returns and does not raise.
\<close>

theorem C9_leading_sibling_combinator:
  "((\<exists>first segs. splitIntoCombinatorSegments nodes = first # segs
        \<and> (combinator first = ''+'' \<or> combinator first = ''~''))
      \<longrightarrow> matchSelectorPart nodes scope pm = Inr []
        \<and> matchSelector [Selector raw nodes] scope pm = Inr [])
   \<and> ((trim c = ''+'' \<or> trim c = ''~'') \<and> isCompoundPart part
      \<longrightarrow> matchSelectorPart (Combinator c # part # rest) scope pm = Inr []
        \<and> matchSelector [Selector raw (Combinator c # part # rest)] scope pm = Inr [])
   \<and> matchAdjacentSibling scope [] ps = Inr []
   \<and> matchGeneralSibling scope [] ps = Inr []
   \<and> chainSegments [] later = Inr []"
proof -
  have A: "matchSelectorPart ns scope pm = Inr []
           \<Longrightarrow> matchSelector [Selector raw ns] scope pm = Inr []"
    for ns by (simp add: matchSelector_def)
  have one: "(\<exists>first segs. splitIntoCombinatorSegments nodes = first # segs
        \<and> (combinator first = ''+'' \<or> combinator first = ''~''))
      \<longrightarrow> matchSelectorPart nodes scope pm = Inr []
        \<and> matchSelector [Selector raw nodes] scope pm = Inr []"
    using matchSelectorPart_sibling_first A by blast
  have two: "(trim c = ''+'' \<or> trim c = ''~'') \<and> isCompoundPart part
      \<longrightarrow> matchSelectorPart (Combinator c # part # rest) scope pm = Inr []
        \<and> matchSelector [Selector raw (Combinator c # part # rest)] scope pm = Inr []"
  proof
    assume h: "(trim c = ''+'' \<or> trim c = ''~'') \<and> isCompoundPart part"
    let ?ns = "Combinator c # part # rest"
    from h split_leading_combinator[of part c rest]
    obtain first segs where "splitIntoCombinatorSegments ?ns = first # segs"
      and "combinator first = trim c"
      by (cases "splitIntoCombinatorSegments ?ns") auto
    then have "matchSelectorPart ?ns scope pm = Inr []"
      using h matchSelectorPart_sibling_first[of ?ns first segs scope pm] by auto
    then show "matchSelectorPart ?ns scope pm = Inr []
               \<and> matchSelector [Selector raw ?ns] scope pm = Inr []"
      using A by blast
  qed
  show ?thesis
    using one two
    by (simp add: matchAdjacentSibling_def matchGeneralSibling_def chainSegments_empty)
qed

theorem C9_leading_sibling_combinator_witness:
  "splitIntoCombinatorSegments [Combinator '' + '', Tag ''p'', Combinator ''>'', Class ''x'']
     = [\<lparr>combinator = ''+'', parts = [Tag ''p'']\<rparr>, \<lparr>combinator = ''>'', parts = [Class ''x'']\<rparr>]
   \<and> trim '' + '' = ''+'' \<and> isCompoundPart (Tag ''p'')
   \<and> matchSelectorPart [Combinator '' + '', Tag ''p'', Combinator ''>'', Class ''x'']
        [El (TemplateNode ''h2'' None [] [] [] None) 0 None,
         El (TemplateNode ''p'' None [] [] [TemplateNode ''b'' None [''x''] [] [] None] None) 1 None]
        None = Inr []
   \<and> matchSelector [Selector ''+ p > .x'' [Combinator '' + '', Tag ''p'', Combinator ''>'', Class ''x'']]
        [El (TemplateNode ''h2'' None [] [] [] None) 0 None,
         El (TemplateNode ''p'' None [] [] [TemplateNode ''b'' None [''x''] [] [] None] None) 1 None]
        None = Inr []"
proof -
  have s: "splitIntoCombinatorSegments [Combinator '' + '', Tag ''p'', Combinator ''>'', Class ''x'']
     = [\<lparr>combinator = ''+'', parts = [Tag ''p'']\<rparr>, \<lparr>combinator = ''>'', parts = [Class ''x'']\<rparr>]"
    by code_simp
  have t: "trim '' + '' = ''+''" by code_simp
  have p: "isCompoundPart (Tag ''p'')" by (simp add: isCompoundPart_def)
  show ?thesis
    using C9_leading_sibling_combinator[of
            "[Combinator '' + '', Tag ''p'', Combinator ''>'', Class ''x'']"
            "[El (TemplateNode ''h2'' None [] [] [] None) 0 None,
              El (TemplateNode ''p'' None [] [] [TemplateNode ''b'' None [''x''] [] [] None] None) 1 None]"
            None "''+ p > .x''" "'' + ''" "Tag ''p''" "[Combinator ''>'', Class ''x'']"]
          s t p
    by simp
qed

declare descendantsOf.simps [simp del]

section \<open>Properties of the relational pseudo-class\<close>

lemma node_size_pos: "0 < size (n :: TemplateNode)"
  by (cases n) simp

lemma forestSize_Cons: "forestSize (n # ns) = size (node n) + forestSize ns"
  by (simp add: forestSize_def)

lemma findDescendantsMatching_filter:
  "findDescendantsMatching nodes ps =
     (if \<exists>d\<in>set (concat (map (\<lambda>n. n # descendantsOf n) nodes)).
           matchesCompound d ps = Inl TypeError
      then Inl TypeError
      else Inr (filter (\<lambda>d. matchesCompound d ps = Inr True)
                  (concat (map (\<lambda>n. n # descendantsOf n) nodes))))"
proof (induction "forestSize nodes" arbitrary: nodes rule: less_induct)
  case less
  show ?case
  proof (cases nodes)
    case Nil
    then show ?thesis by simp
  next
    case (Cons n ns)
    have k: "forestSize (childrenOf n) < forestSize nodes"
      using forestSize_childrenOf[of n] by (simp add: Cons forestSize_Cons)
    have r: "forestSize ns < forestSize nodes"
      using node_size_pos[of "node n"] by (simp add: Cons forestSize_Cons)
    have d: "descendantsOf n = concat (map (\<lambda>c. c # descendantsOf c) (childrenOf n))"
      by (rule descendantsOf.simps)
    show ?thesis
    proof (cases "matchesCompound n ps" rule: result_cases)
      case raised
      then show ?thesis by (simp add: Cons)
    next
      case (returned ok)
      show ?thesis
        unfolding Cons findDescendantsMatching_Cons returned less[OF k] less[OF r] d[symmetric]
        using returned by (cases ok) auto
    qed
  qed
qed

lemma splitLoop_compound:
  "list_all isCompoundPart ns \<Longrightarrow>
   splitLoop ns segs comb cur =
     (if cur @ ns \<noteq> [] then segs @ [\<lparr>combinator = comb, parts = cur @ ns\<rparr>] else segs)"
  by (induction ns arbitrary: cur)
     (auto simp: isCompoundPart_def split: SelectorNode.splits)

lemma split_compound:
  "compoundParts ps \<Longrightarrow> splitIntoCombinatorSegments ps = [\<lparr>combinator = '' '', parts = ps\<rparr>]"
  by (simp add: compoundParts_def splitIntoCombinatorSegments_def splitLoop_compound)

lemma split_child_compound:
  "compoundParts ps \<Longrightarrow>
   splitIntoCombinatorSegments (Combinator c # ps) = [\<lparr>combinator = trim c, parts = ps\<rparr>]"
  by (simp add: compoundParts_def splitIntoCombinatorSegments_def splitLoop_compound)

lemma has_child:
  assumes "trim c = ''>''" and "compoundParts ps"
  shows "matchesHasSelector e (Combinator c # ps) =
           (if \<exists>ch\<in>set (childrenOf e). matchesCompound ch ps = Inl TypeError then Inl TypeError
            else Inr (\<exists>ch\<in>set (childrenOf e). matchesCompound ch ps = Inr True))"
  using assms
  by (auto simp: matchesHasSelector.simps split_child_compound filterE_eq filter_empty_conv)

lemma has_descendant:
  assumes "compoundParts ps"
  shows "matchesHasSelector e ps =
           (if \<exists>d\<in>set (descendantsOf e). matchesCompound d ps = Inl TypeError then Inl TypeError
            else Inr (\<exists>d\<in>set (descendantsOf e). matchesCompound d ps = Inr True))"
proof -
  have d: "descendantsOf e = concat (map (\<lambda>c. c # descendantsOf c) (childrenOf e))"
    by (rule descendantsOf.simps)
  show ?thesis
    using assms
    by (simp add: matchesHasSelector.simps split_compound findDescendantsMatching_filter
             filter_empty_conv d[symmetric])
qed

declare matchesHasSelector.simps [simp del]

lemma has_someE:
  "matchesCompound e [Pseudo '':has'' inners] = someE (hasInner e) inners"
proof -
  have "matchesCompound e [Pseudo '':has'' inners] =
        (case someE (hasInner e) inners of
           Inl err \<Rightarrow> Inl err
         | Inr anyMatch \<Rightarrow> if \<not> anyMatch then Inr False else Inr True)"
    unfolding hasInner_def by (simp split: sum.splits)
  then show ?thesis by (auto split: sum.splits)
qed

lemma hasInner_iff:
  assumes r: "r \<noteq> Inr False"
  shows "(\<exists>x\<in>set inners. hasInner e x = r)
         \<longleftrightarrow> (\<exists>raw ns. Selector raw ns \<in> set inners \<and> matchesHasSelector e ns = r)"
proof
  assume "\<exists>x\<in>set inners. hasInner e x = r"
  then obtain x where x: "x \<in> set inners" "hasInner e x = r" by blast
  with r obtain raw ns where "x = Selector raw ns"
    by (cases x) (auto simp: hasInner_def)
  then show "\<exists>raw ns. Selector raw ns \<in> set inners \<and> matchesHasSelector e ns = r"
    using x by (auto simp: hasInner_def)
next
  assume "\<exists>raw ns. Selector raw ns \<in> set inners \<and> matchesHasSelector e ns = r"
  then obtain raw ns where m: "Selector raw ns \<in> set inners" "matchesHasSelector e ns = r"
    by blast
  then have "hasInner e (Selector raw ns) = r" by (simp add: hasInner_def)
  then show "\<exists>x\<in>set inners. hasInner e x = r" using m(1) by blast
qed

lemma has_any_inner:
  assumes "\<forall>raw ns. Selector raw ns \<in> set inners \<longrightarrow> matchesHasSelector e ns \<noteq> Inl TypeError"
  shows "matchesCompound e [Pseudo '':has'' inners]
         = Inr (\<exists>raw ns. Selector raw ns \<in> set inners \<and> matchesHasSelector e ns = Inr True)"
proof -
  have "\<forall>x\<in>set inners. hasInner e x \<noteq> Inl TypeError"
    using assms unfolding hasInner_def
    by (auto split: SelectorNode.splits)
  then have "someE (hasInner e) inners = Inr (\<exists>x\<in>set inners. hasInner e x = Inr True)"
    by (rule someE_all_returned)
  then show ?thesis
    unfolding has_someE using hasInner_iff[where r = "Inr True" and inners = inners and e = e] by simp
qed

lemma has_returns_True:
  assumes "matchesCompound e [Pseudo '':has'' inners] = Inr True"
  shows "\<exists>raw ns. Selector raw ns \<in> set inners \<and> matchesHasSelector e ns = Inr True"
  using someE_True[of "hasInner e" inners] assms[unfolded has_someE]
        hasInner_iff[where r = "Inr True" and inners = inners and e = e]
  by simp

lemma has_returns_False:
  assumes "matchesCompound e [Pseudo '':has'' inners] = Inr False"
  shows "\<forall>raw ns. Selector raw ns \<in> set inners \<longrightarrow> matchesHasSelector e ns = Inr False"
proof (intro allI impI)
  fix raw ns
  assume "Selector raw ns \<in> set inners"
  then have "hasInner e (Selector raw ns) = Inr False"
    using someE_False[of "hasInner e" inners] assms[unfolded has_someE] by simp
  then show "matchesHasSelector e ns = Inr False" by (simp add: hasInner_def)
qed

lemma has_raises:
  assumes "matchesCompound e [Pseudo '':has'' inners] = Inl TypeError"
  shows "\<exists>raw ns. Selector raw ns \<in> set inners \<and> matchesHasSelector e ns = Inl TypeError"
  using someE_raised[of "hasInner e" inners TypeError] assms[unfolded has_someE]
        hasInner_iff[where r = "Inl TypeError" and inners = inners and e = e]
  by simp

lemma tag_only: "matchesCompound d [Tag t] = Inr (tag (node d) = t)"
  by simp

lemma childrenOf_nodes: "node ` set (childrenOf e) = set (TemplateNode.children (node e))"
proof -
  have "map node (map (\<lambda>(i, c). El c i (Some e)) (enumerate k cs)) = cs" for k cs
    by (induction cs arbitrary: k) simp_all
  then have "map node (childrenOf e) = TemplateNode.children (node e)"
    by (simp add: childrenOf_def)
  then show ?thesis by (metis set_map)
qed

lemma childrenOf_sub_descendants: "set (childrenOf e) \<subseteq> set (descendantsOf e)"
  by (subst descendantsOf.simps) auto

lemma grandchildren_sub_descendants:
  "c \<in> set (childrenOf e) \<Longrightarrow> set (childrenOf c) \<subseteq> set (descendantsOf e)"
  using childrenOf_sub_descendants[of c] by (subst descendantsOf.simps) auto

lemma has_child_img:
  "matchesCompound e [Pseudo '':has'' [Selector r1 [Combinator ''>'', Tag ''img'']]]
   = Inr (\<exists>k\<in>set (TemplateNode.children (node e)). tag k = ''img'')"
proof -
  have cp: "compoundParts [Tag ''img'']"
    by (simp add: compoundParts_def isCompoundPart_def)
  have tr: "trim ''>'' = ''>''" by code_simp
  have h: "matchesHasSelector e [Combinator ''>'', Tag ''img'']
           = Inr (\<exists>ch\<in>set (childrenOf e). tag (node ch) = ''img'')"
    unfolding has_child[OF tr cp] tag_only by simp
  have "(\<exists>ch\<in>set (childrenOf e). tag (node ch) = ''img'')
        \<longleftrightarrow> (\<exists>k\<in>node ` set (childrenOf e). tag k = ''img'')" by blast
  then have i: "(\<exists>ch\<in>set (childrenOf e). tag (node ch) = ''img'')
        \<longleftrightarrow> (\<exists>k\<in>set (TemplateNode.children (node e)). tag k = ''img'')"
    by (simp only: childrenOf_nodes)
  have "matchesCompound e [Pseudo '':has'' [Selector r1 [Combinator ''>'', Tag ''img'']]]
        = matchesHasSelector e [Combinator ''>'', Tag ''img'']"
    unfolding has_someE by (simp add: hasInner_def h)
  then show ?thesis unfolding h i .
qed

lemma has_descendant_img:
  assumes "\<exists>k\<in>set (TemplateNode.children (node e)).
              \<exists>g\<in>set (TemplateNode.children k). tag g = ''img''"
  shows "matchesCompound e [Pseudo '':has'' [Selector r2 [Tag ''img'']]] = Inr True"
proof -
  have cp: "compoundParts [Tag ''img'']"
    by (simp add: compoundParts_def isCompoundPart_def)
  from assms obtain k g where k: "k \<in> set (TemplateNode.children (node e))"
    and g: "g \<in> set (TemplateNode.children k)" and t: "tag g = ''img''" by blast
  from k obtain kc where kc: "kc \<in> set (childrenOf e)" "node kc = k"
    using childrenOf_nodes[of e] by (metis imageE)
  from g kc obtain gc where gc: "gc \<in> set (childrenOf kc)" "node gc = g"
    using childrenOf_nodes[of kc] by (metis imageE)
  have "gc \<in> set (descendantsOf e)"
    using grandchildren_sub_descendants[OF kc(1)] gc(1) by blast
  then have "\<exists>d\<in>set (descendantsOf e). tag (node d) = ''img''"
    using gc(2) t by auto
  then have h: "matchesHasSelector e [Tag ''img''] = Inr True"
    unfolding has_descendant[OF cp] tag_only by simp
  show ?thesis
    unfolding has_someE by (simp add: hasInner_def h)
qed

text \<open>
  Claim C4. \<open>:has()\<close> holds of a subject exactly when one of its inner selectors yields
  a result, searching forward from the subject: an inner selector that starts with
  \<open>>\<close> looks at the subject's children only, one with no leading combinator at all
  of its descendants. Every child, or every descendant, is tested, so the search raises
  exactly when one of these tests raises. So a node with an \<open>img\<close> child satisfies
  \<open>:has(> img)\<close>, and a node whose \<open>img\<close> is a grandchild, with no \<open>img\<close> child,
  fails \<open>:has(> img)\<close> and satisfies \<open>:has(img)\<close>.
\<close>

theorem C4_has_forward:
  "((\<forall>raw ns. Selector raw ns \<in> set inners \<longrightarrow> matchesHasSelector e ns \<noteq> Inl TypeError) \<longrightarrow>
      matchesCompound e [Pseudo '':has'' inners]
      = Inr (\<exists>raw ns. Selector raw ns \<in> set inners \<and> matchesHasSelector e ns = Inr True))
   \<and> (matchesCompound e [Pseudo '':has'' inners] = Inr True \<longrightarrow>
        (\<exists>raw ns. Selector raw ns \<in> set inners \<and> matchesHasSelector e ns = Inr True))
   \<and> (matchesCompound e [Pseudo '':has'' inners] = Inr False \<longrightarrow>
        (\<forall>raw ns. Selector raw ns \<in> set inners \<longrightarrow> matchesHasSelector e ns = Inr False))
   \<and> (matchesCompound e [Pseudo '':has'' inners] = Inl TypeError \<longrightarrow>
        (\<exists>raw ns. Selector raw ns \<in> set inners \<and> matchesHasSelector e ns = Inl TypeError))
   \<and> (trim c = ''>'' \<and> compoundParts ps \<longrightarrow>
        matchesHasSelector e (Combinator c # ps) =
          (if \<exists>ch\<in>set (childrenOf e). matchesCompound ch ps = Inl TypeError then Inl TypeError
           else Inr (\<exists>ch\<in>set (childrenOf e). matchesCompound ch ps = Inr True)))
   \<and> (compoundParts ps \<longrightarrow>
        matchesHasSelector e ps =
          (if \<exists>d\<in>set (descendantsOf e). matchesCompound d ps = Inl TypeError then Inl TypeError
           else Inr (\<exists>d\<in>set (descendantsOf e). matchesCompound d ps = Inr True)))
   \<and> ((\<exists>k\<in>set (TemplateNode.children (node e)). tag k = ''img'') \<longrightarrow>
        matchesCompound e [Pseudo '':has'' [Selector r1 [Combinator ''>'', Tag ''img'']]]
        = Inr True)
   \<and> ((\<forall>k\<in>set (TemplateNode.children (node e)). tag k \<noteq> ''img'')
        \<and> (\<exists>k\<in>set (TemplateNode.children (node e)).
              \<exists>g\<in>set (TemplateNode.children k). tag g = ''img'') \<longrightarrow>
        matchesCompound e [Pseudo '':has'' [Selector r1 [Combinator ''>'', Tag ''img'']]]
        = Inr False
        \<and> matchesCompound e [Pseudo '':has'' [Selector r2 [Tag ''img'']]] = Inr True)"
proof (intro conjI impI)
  assume "\<forall>raw ns. Selector raw ns \<in> set inners \<longrightarrow> matchesHasSelector e ns \<noteq> Inl TypeError"
  then show "matchesCompound e [Pseudo '':has'' inners]
      = Inr (\<exists>raw ns. Selector raw ns \<in> set inners \<and> matchesHasSelector e ns = Inr True)"
    by (rule has_any_inner)
next
  assume "matchesCompound e [Pseudo '':has'' inners] = Inr True"
  then show "\<exists>raw ns. Selector raw ns \<in> set inners \<and> matchesHasSelector e ns = Inr True"
    by (rule has_returns_True)
next
  assume "matchesCompound e [Pseudo '':has'' inners] = Inr False"
  then show "\<forall>raw ns. Selector raw ns \<in> set inners \<longrightarrow> matchesHasSelector e ns = Inr False"
    by (rule has_returns_False)
next
  assume "matchesCompound e [Pseudo '':has'' inners] = Inl TypeError"
  then show "\<exists>raw ns. Selector raw ns \<in> set inners \<and> matchesHasSelector e ns = Inl TypeError"
    by (rule has_raises)
next
  assume "trim c = ''>'' \<and> compoundParts ps"
  then show "matchesHasSelector e (Combinator c # ps) =
          (if \<exists>ch\<in>set (childrenOf e). matchesCompound ch ps = Inl TypeError then Inl TypeError
           else Inr (\<exists>ch\<in>set (childrenOf e). matchesCompound ch ps = Inr True))"
    using has_child[of c ps e] by blast
next
  assume "compoundParts ps"
  then show "matchesHasSelector e ps =
          (if \<exists>d\<in>set (descendantsOf e). matchesCompound d ps = Inl TypeError then Inl TypeError
           else Inr (\<exists>d\<in>set (descendantsOf e). matchesCompound d ps = Inr True))"
    by (rule has_descendant)
next
  assume "\<exists>k\<in>set (TemplateNode.children (node e)). tag k = ''img''"
  then show "matchesCompound e [Pseudo '':has'' [Selector r1 [Combinator ''>'', Tag ''img'']]]
        = Inr True"
    unfolding has_child_img by simp
next
  assume "(\<forall>k\<in>set (TemplateNode.children (node e)). tag k \<noteq> ''img'')
        \<and> (\<exists>k\<in>set (TemplateNode.children (node e)).
              \<exists>g\<in>set (TemplateNode.children k). tag g = ''img'')"
  then show "matchesCompound e [Pseudo '':has'' [Selector r1 [Combinator ''>'', Tag ''img'']]]
        = Inr False"
    unfolding has_child_img by simp
next
  assume "(\<forall>k\<in>set (TemplateNode.children (node e)). tag k \<noteq> ''img'')
        \<and> (\<exists>k\<in>set (TemplateNode.children (node e)).
              \<exists>g\<in>set (TemplateNode.children k). tag g = ''img'')"
  then show "matchesCompound e [Pseudo '':has'' [Selector r2 [Tag ''img'']]] = Inr True"
    using has_descendant_img by blast
qed

theorem C4_has_forward_witness:
  "trim ''>'' = ''>'' \<and> compoundParts [Tag ''img'']
   \<and> (\<exists>k\<in>set (TemplateNode.children (node exCard)). tag k = ''img'')
   \<and> matchesCompound exCard [Pseudo '':has'' [Selector ''> img'' [Combinator ''>'', Tag ''img'']]]
     = Inr True
   \<and> map tag (TemplateNode.children (node exDeep)) = [''p'']
   \<and> (\<exists>k\<in>set (TemplateNode.children (node exDeep)).
         \<exists>g\<in>set (TemplateNode.children k). tag g = ''img'')
   \<and> matchesCompound exDeep [Pseudo '':has'' [Selector ''> img'' [Combinator ''>'', Tag ''img'']]]
     = Inr False
   \<and> matchesCompound exDeep [Pseudo '':has'' [Selector ''img'' [Tag ''img'']]] = Inr True
   \<and> matchesHasSelector exDeep [Tag ''img''] = Inr True
   \<and> matchesHasSelector exDeep [Combinator ''>'', Tag ''img''] = Inr False
   \<and> compoundParts [Attribute ''toString'' (Some ''^='') (Some ''x'')]
   \<and> matchesHasSelector exCard [Combinator ''>'', Attribute ''toString'' (Some ''^='') (Some ''x'')]
     = Inl TypeError"
proof -
  have tr: "trim ''>'' = ''>''" by code_simp
  have cp: "compoundParts [Tag ''img'']"
    by (simp add: compoundParts_def isCompoundPart_def)
  have cq: "compoundParts [Attribute ''toString'' (Some ''^='') (Some ''x'')]"
    by (simp add: compoundParts_def isCompoundPart_def)
  have c1: "\<exists>k\<in>set (TemplateNode.children (node exCard)). tag k = ''img''"
    by (simp add: exCard_def exImg_def)
  have d1: "\<forall>k\<in>set (TemplateNode.children (node exDeep)). tag k \<noteq> ''img''"
    by (simp add: exDeep_def)
  have d2: "\<exists>k\<in>set (TemplateNode.children (node exDeep)).
         \<exists>g\<in>set (TemplateNode.children k). tag g = ''img''"
    by (simp add: exDeep_def exImg_def)
  note T1 = C4_has_forward[of "[]" exCard "''>''" "[Tag ''img'']" "''> img''" "''img''"]
  note T2 = C4_has_forward[of "[Selector ''img'' [Tag ''img'']]" exDeep "''>''" "[Tag ''img'']"
                              "''> img''" "''img''"]
  note T3 = C4_has_forward[of "[Selector ''> img'' [Combinator ''>'', Tag ''img'']]" exDeep
                              "''>''" "[Tag ''img'']" "''> img''" "''img''"]
  note T4 = C4_has_forward[of "[]" exCard "''>''"
                              "[Attribute ''toString'' (Some ''^='') (Some ''x'')]"]
  have w1: "matchesCompound exCard [Pseudo '':has'' [Selector ''> img'' [Combinator ''>'', Tag ''img'']]]
            = Inr True"
    using T1 c1 by blast
  have w2: "matchesCompound exDeep [Pseudo '':has'' [Selector ''> img'' [Combinator ''>'', Tag ''img'']]]
            = Inr False"
    using T2 d1 d2 by blast
  have w3: "matchesCompound exDeep [Pseudo '':has'' [Selector ''img'' [Tag ''img'']]] = Inr True"
    using T2 d1 d2 by blast
  have "\<exists>raw ns. Selector raw ns \<in> set [Selector ''img'' [Tag ''img'']]
                 \<and> matchesHasSelector exDeep ns = Inr True"
    using T2 w3 by blast
  then have w4: "matchesHasSelector exDeep [Tag ''img''] = Inr True" by simp
  have "\<forall>raw ns. Selector raw ns \<in> set [Selector ''> img'' [Combinator ''>'', Tag ''img'']]
                 \<longrightarrow> matchesHasSelector exDeep ns = Inr False"
    using T3 w2 by blast
  then have w5: "matchesHasSelector exDeep [Combinator ''>'', Tag ''img''] = Inr False" by simp
  have r: "\<exists>ch\<in>set (childrenOf exCard).
             matchesCompound ch [Attribute ''toString'' (Some ''^='') (Some ''x'')] = Inl TypeError"
    by (simp add: childrenOf_def exCard_def exImg_def matchesAttribute_def hasProperty_def
                  getProperty_def OBJECT_PROTOTYPE_KEYS_def)
  have "matchesHasSelector exCard
              (Combinator ''>'' # [Attribute ''toString'' (Some ''^='') (Some ''x'')]) =
          (if \<exists>ch\<in>set (childrenOf exCard).
                matchesCompound ch [Attribute ''toString'' (Some ''^='') (Some ''x'')]
                = Inl TypeError
           then Inl TypeError
           else Inr (\<exists>ch\<in>set (childrenOf exCard).
                matchesCompound ch [Attribute ''toString'' (Some ''^='') (Some ''x'')]
                = Inr True))"
    using T4 tr cq by blast
  then have w6: "matchesHasSelector exCard
              [Combinator ''>'', Attribute ''toString'' (Some ''^='') (Some ''x'')] = Inl TypeError"
    using r by (simp only: if_True)
  have d0: "map tag (TemplateNode.children (node exDeep)) = [''p'']"
    by (simp add: exDeep_def)
  show ?thesis by (intro conjI tr cp c1 d0 d2 w1 w2 w3 w4 w5 cq w6)
qed

section \<open>Properties of compound matching\<close>

lemma matchesCompound_attribute:
  "matchesCompound e [Attribute a op v] = matchesAttribute e a op v"
  by (cases "matchesAttribute e a op v") auto

lemma hasProperty_own: "map_of obj k = Some x \<Longrightarrow> hasProperty obj k"
  by (auto simp: hasProperty_def dest: map_of_SomeD intro: rev_image_eqI)

lemma attribute_own_string:
  assumes "map_of (attributes (node e)) a = Some (AttrString s)"
  shows "matchesCompound e [Attribute a None None] = Inr True"
    and "matchesCompound e [Attribute a (Some ''='') (Some w)] = Inr (s = w)"
    and "matchesCompound e [Attribute a (Some ''^='') (Some w)] = Inr (prefix w s)"
    and "matchesCompound e [Attribute a (Some ''$='') (Some w)] = Inr (suffix w s)"
    and "matchesCompound e [Attribute a (Some ''*='') (Some w)]
           = Inr (\<exists>before after. s = before @ w @ after)"
    and "matchesCompound e [Attribute a (Some ''~='') (Some w)] = Inr (w \<in> set (splitWhitespace s))"
    and "matchesCompound e [Attribute a (Some ''|='') (Some w)]
           = Inr (s = w \<or> prefix (w @ ''-'') s)"
  unfolding matchesCompound_attribute
  using assms hasProperty_own[OF assms]
  by (simp_all add: matchesAttribute_def getProperty_def sublist_def)

lemma attribute_own_true:
  assumes "map_of (attributes (node e)) a = Some AttrTrue"
  shows "matchesCompound e [Attribute a None None] = Inr True"
    and "opr \<noteq> [] \<Longrightarrow> matchesCompound e [Attribute a (Some opr) (Some w)] = Inr False"
  unfolding matchesCompound_attribute
  using assms hasProperty_own[OF assms]
  by (simp_all add: matchesAttribute_def getProperty_def)

lemma attribute_absent:
  assumes "a \<notin> fst ` set (attributes (node e))" and "a \<notin> set OBJECT_PROTOTYPE_KEYS"
  shows "matchesCompound e [Attribute a op v] = Inr False"
  unfolding matchesCompound_attribute
  using assms by (simp add: matchesAttribute_def hasProperty_def)

lemma attribute_inherited:
  assumes "a \<notin> fst ` set (attributes (node e))" and "a \<in> set OBJECT_PROTOTYPE_KEYS"
  shows "matchesCompound e [Attribute a None None] = Inr True"
    and "matchesCompound e [Attribute a (Some ''='') (Some w)] = Inr False"
    and "opr \<in> {''^='', ''$='', ''*='', ''~='', ''|=''}
         \<Longrightarrow> matchesCompound e [Attribute a (Some opr) (Some w)] = Inl TypeError"
proof -
  have n: "map_of (attributes (node e)) a = None"
    using assms(1) by (simp add: map_of_eq_None_iff)
  have h: "hasProperty (attributes (node e)) a"
    using assms(2) by (simp add: hasProperty_def)
  show "matchesCompound e [Attribute a None None] = Inr True"
    unfolding matchesCompound_attribute using h by (simp add: matchesAttribute_def)
  show "matchesCompound e [Attribute a (Some ''='') (Some w)] = Inr False"
    unfolding matchesCompound_attribute using h n
    by (simp add: matchesAttribute_def getProperty_def)
  show "opr \<in> {''^='', ''$='', ''*='', ''~='', ''|=''}
         \<Longrightarrow> matchesCompound e [Attribute a (Some opr) (Some w)] = Inl TypeError"
    unfolding matchesCompound_attribute using h n
    by (auto simp: matchesAttribute_def getProperty_def)
qed

text \<open>
  Claim C6, at the input where the program leaves it. The element \<open><div></div>\<close> has
  no attribute. The key test of \<open>matchesCompound\<close> is \<open>attrName in el.attributes\<close>, which
  also holds of the keys that the attribute object inherits, so the bare selector
  \<open>[constructor]\<close> matches the element although the key is not present, and
  \<open>[toString^=x]\<close> raises a \<open>TypeError\<close> where the claim has the operator fail to match.
\<close>

theorem C6_attribute_selectors:
  "attributes (node exBare) = []
   \<and> matchesCompound exBare [Attribute ''constructor'' None None] = Inr True
   \<and> matchSelector [Selector ''[constructor]'' [Attribute ''constructor'' None None]]
        [exBare] None = Inr [exBare]
   \<and> matchesCompound exBare [Attribute ''toString'' (Some ''^='') (Some ''x'')] = Inl TypeError
   \<and> matchSelector [Selector ''[toString^=x]'' [Attribute ''toString'' (Some ''^='') (Some ''x'')]]
        [exBare] None = Inl TypeError
   \<and> matchesCompound exBare [Attribute ''title'' None None] = Inr False"
proof -
  have a: "attributes (node exBare) = []" by (simp add: exBare_def)
  have k1: "''constructor'' \<in> set OBJECT_PROTOTYPE_KEYS" by (simp add: OBJECT_PROTOTYPE_KEYS_def)
  have k2: "''toString'' \<in> set OBJECT_PROTOTYPE_KEYS" by (simp add: OBJECT_PROTOTYPE_KEYS_def)
  have k3: "''title'' \<notin> set OBJECT_PROTOTYPE_KEYS" by (simp add: OBJECT_PROTOTYPE_KEYS_def)
  have m1: "matchesCompound exBare [Attribute ''constructor'' None None] = Inr True"
    using attribute_inherited(1)[of "''constructor''" exBare] a k1 by simp
  have m2: "matchesCompound exBare [Attribute ''toString'' (Some ''^='') (Some ''x'')]
            = Inl TypeError"
    using attribute_inherited(3)[of "''toString''" exBare "''^=''" "''x''"] a k2 by simp
  have m3: "matchesCompound exBare [Attribute ''title'' None None] = Inr False"
    using attribute_absent[of "''title''" exBare None None] a k3 by simp
  have s1: "matchSelector [Selector ''[constructor]'' [Attribute ''constructor'' None None]]
        [exBare] None = Inr [exBare]"
    by code_simp
  have s2: "matchSelector
        [Selector ''[toString^=x]'' [Attribute ''toString'' (Some ''^='') (Some ''x'')]]
        [exBare] None = Inl TypeError"
    by code_simp
  show ?thesis by (intro conjI a m1 s1 m2 s2 m3)
qed

section \<open>The parser returns\<close>





















section \<open>Ambiguous words before a brace\<close>



































section \<open>Resolution of trees without uses\<close>

lemma object_without_uses:
  "obj_uses r = [] \<Longrightarrow>
   RuleObject (obj_label r) (obj_classes r) (obj_declarations r) [] (obj_children r) = r"
  by (cases r) simp

lemma clearUses_id: "obj_uses (deref h a) = [] \<Longrightarrow> clearUses h a = h"
  by (cases "a < length h")
     (simp_all add: clearUses_def deref_def object_without_uses list_update_beyond)

lemma resolveUsesInRules_past_end:
  "length (readArray (objects st) arr) \<le> i \<Longrightarrow> 1 \<le> fuel
   \<Longrightarrow> resolveUsesInRules fuel env arr i st = Some st"
  by (cases fuel) simp_all

lemma resolveUsesInRules_useFree:
  "list_all (useFree n (objects st)) (drop i (readArray (objects st) arr))
   \<Longrightarrow> \<exists>N. \<forall>fuel\<ge>N. resolveUsesInRules fuel env arr i st = Some st"
proof (induction n arbitrary: arr i)
  case 0
  then have "drop i (readArray (objects st) arr) = []"
    by (cases "drop i (readArray (objects st) arr)") simp_all
  then have "length (readArray (objects st) arr) \<le> i" by simp
  then have "\<forall>fuel\<ge>1. resolveUsesInRules fuel env arr i st = Some st"
    using resolveUsesInRules_past_end by blast
  then show ?case by blast
next
  case (Suc n)
  let ?rs = "readArray (objects st) arr"
  from Suc.prems show ?case
  proof (induction "length ?rs - i" arbitrary: i)
    case 0
    then have "length ?rs \<le> i" by simp
    then have "\<forall>fuel\<ge>1. resolveUsesInRules fuel env arr i st = Some st"
      using resolveUsesInRules_past_end by blast
    then show ?case by blast
  next
    case (Suc k)
    then have lt: "i < length ?rs" by simp
    let ?r = "?rs ! i"
    have d: "drop i ?rs = ?r # drop (Suc i) ?rs" using lt by (simp add: Cons_nth_drop_Suc)
    have r: "useFree (Suc n) (objects st) ?r"
      and rest: "list_all (useFree (Suc n) (objects st)) (drop (Suc i) ?rs)"
      using Suc.prems unfolding d by simp_all
    have u: "obj_uses (deref (objects st) ?r) = []" using r by simp
    have kids: "list_all (useFree n (objects st))
                  (drop 0 (readArray (objects st) (ChildrenOf ?r)))"
      using r by simp
    from Suc.prems(1) kids obtain N1 where
      N1: "\<forall>fuel\<ge>N1. resolveUsesInRules fuel env (ChildrenOf ?r) 0 st = Some st"
      using \<open>\<And>i arr. list_all (useFree n (objects st)) (drop i (readArray (objects st) arr))
              \<Longrightarrow> \<exists>N. \<forall>fuel\<ge>N. resolveUsesInRules fuel env arr i st = Some st\<close>
      by blast
    have "k = length ?rs - Suc i" using Suc.hyps(2) by simp
    from Suc.hyps(1)[OF this rest] obtain N2 where
      N2: "\<forall>fuel\<ge>N2. resolveUsesInRules fuel env arr (Suc i) st = Some st" by blast
    have "resolveUsesInRules fuel env arr i st = Some st" if f: "Suc (max N1 N2) \<le> fuel" for fuel
    proof -
      from f obtain f' where f': "fuel = Suc f'" and b: "N1 \<le> f'" "N2 \<le> f'"
        by (cases fuel) auto
      have c: "st\<lparr>objects := clearUses (objects st) ?r\<rparr> = st"
        by (simp add: clearUses_id[OF u])
      show ?thesis
        unfolding f' using lt u N1 N2 b by (simp add: Let_def c)
    qed
    then show ?case by blast
  qed
qed

lemma resolveUsesInExport_useFree:
  assumes "useFree n (objects st) exp"
  shows "\<exists>N. \<forall>fuel\<ge>N. resolveUsesInExport fuel env exp st = Some st"
proof (cases n)
  case 0
  then show ?thesis using assms by simp
next
  case (Suc m)
  have u: "obj_uses (deref (objects st) exp) = []" using assms Suc by simp
  have "list_all (useFree m (objects st)) (drop 0 (readArray (objects st) (ChildrenOf exp)))"
    using assms Suc by simp
  from resolveUsesInRules_useFree[OF this] obtain N where
    N: "\<forall>fuel\<ge>N. resolveUsesInRules fuel env (ChildrenOf exp) 0 st = Some st" by blast
  have c: "st\<lparr>objects := clearUses (objects st) exp\<rparr> = st"
    by (simp add: clearUses_id[OF u])
  have "\<forall>fuel\<ge>N. resolveUsesInExport fuel env exp st = Some st"
    using N by (simp add: resolveUsesInExport_def u c)
  then show ?thesis by blast
qed

lemma resolveExports_useFree:
  assumes "list_all (useFree n (objects st)) exps" and "resolving st = []"
  shows "\<exists>N. \<forall>fuel\<ge>N. resolveExports fuel env exps st = Some st"
  using assms(1)
proof (induction exps)
  case Nil
  show ?case by simp
next
  case (Cons e es)
  have r: "st\<lparr>resolving := []\<rparr> = st" using assms(2) by simp
  from Cons.prems have "useFree n (objects st) e" by simp
  from resolveUsesInExport_useFree[OF this] obtain N1 where
    N1: "\<forall>fuel\<ge>N1. resolveUsesInExport fuel env e st = Some st" by blast
  from Cons obtain N2 where N2: "\<forall>fuel\<ge>N2. resolveExports fuel env es st = Some st" by auto
  have "\<forall>fuel\<ge>max N1 N2. resolveExports fuel env (e # es) st = Some st"
    using N1 N2 by (simp add: r)
  then show ?case by blast
qed

lemma registrySet_values:
  "list_all P (map snd m) \<Longrightarrow> P v \<Longrightarrow> list_all P (map snd (registrySet k v m))"
  by (induction m) (auto simp: registrySet_def list_all_iff split: if_splits)

lemma registerExports_values:
  "list_all P es \<Longrightarrow> list_all P (map snd reg)
   \<Longrightarrow> list_all P (map snd (fst (registerExports h es (reg, ws))))"
  by (induction es arbitrary: reg ws) (simp_all add: Let_def registrySet_values)

lemma registerNames_values:
  "list_all P found \<Longrightarrow> list_all P (map snd reg)
   \<Longrightarrow> list_all P (map snd (fst (registerNames h src found nms (reg, ws))))"
proof (induction nms arbitrary: reg ws)
  case Nil
  then show ?case by simp
next
  case (Cons nm nms)
  show ?case
  proof (cases "find (\<lambda>e. obj_label (deref h e) = nm) found")
    case None
    then show ?thesis using Cons by simp
  next
    case (Some e)
    then have "e \<in> set found" by (auto simp: find_Some_iff)
    then have "P e" using Cons.prems(1) by (simp add: list_all_iff)
    then show ?thesis using Some Cons by (simp add: registrySet_values)
  qed
qed

lemma registerImports_values:
  "\<forall>p. list_all P (files p) \<Longrightarrow> list_all P (map snd reg)
   \<Longrightarrow> list_all P (map snd (fst (registerImports h d res files imps (reg, ds, ws))))"
proof (induction imps arbitrary: reg ds ws)
  case Nil
  then show ?case by simp
next
  case (Cons imp imps)
  let ?p = "res d (ImportDirective.from' imp)"
  obtain reg1 ws1 where
    n: "registerNames h (ImportDirective.from' imp) (files ?p) (ImportDirective.names imp) (reg, ws)
        = (reg1, ws1)" by (cases "registerNames h (ImportDirective.from' imp) (files ?p)
                                    (ImportDirective.names imp) (reg, ws)")
  have "list_all P (map snd reg1)"
    using registerNames_values[of P "files ?p" reg h "ImportDirective.from' imp"
                                  "ImportDirective.names imp" ws] Cons.prems n by simp
  then show ?case using Cons n by (simp add: Let_def)
qed

lemma resolveDirectives_useFree:
  assumes roots: "list_all (useFree n h) roots"
    and exps: "list_all (useFree n h) exps"
    and files: "\<forall>p. list_all (useFree n h) (files p)"
  shows "\<exists>N. \<forall>fuel\<ge>N. \<exists>st. resolveDirectives fuel res files d roots exps imps h = Some st
                         \<and> objects st = h \<and> resolving st = []"
proof -
  obtain reg0 ws0 where r0: "registerExports h exps ([], []) = (reg0, ws0)"
    by (cases "registerExports h exps ([], [])")
  obtain reg ds ws where r1: "registerImports h d res files imps (reg0, [], ws0) = (reg, ds, ws)"
    by (cases "registerImports h d res files imps (reg0, [], ws0)")
  have v0: "list_all (useFree n h) (map snd reg0)"
    using registerExports_values[of "useFree n h" exps "[]" h "[]"] exps r0 by simp
  have v: "list_all (useFree n h) (map snd reg)"
    using registerImports_values[of "useFree n h" files reg0 h d res imps "[]" ws0] files v0 r1
    by simp
  let ?env = "\<lparr>registry = reg, dir = d, resolvePath = res, fileExports = files\<rparr>"
  let ?st = "\<lparr>objects = h, resolving = [], deps = ds, warned = ws\<rparr>"
  from resolveExports_useFree[of n ?st "map snd reg" ?env] v obtain N1 where
    N1: "\<forall>fuel\<ge>N1. resolveExports fuel ?env (map snd reg) ?st = Some ?st" by auto
  from resolveUsesInRules_useFree[of n ?st 0 "Fixed roots" ?env] roots obtain N2 where
    N2: "\<forall>fuel\<ge>N2. resolveUsesInRules fuel ?env (Fixed roots) 0 ?st = Some ?st" by auto
  have "\<forall>fuel\<ge>max N1 N2. resolveDirectives fuel res files d roots exps imps h = Some ?st"
    using N1 N2 by (simp add: resolveDirectives_def r0 r1)
  then show ?thesis by (metis resolverState.select_convs(1,2))
qed

lemma useFree_deeper: "useFree n h a \<Longrightarrow> n \<le> m \<Longrightarrow> useFree m h a"
proof (induction n arbitrary: m a)
  case 0
  then show ?case by simp
next
  case (Suc n)
  then obtain m' where m: "m = Suc m'" "n \<le> m'" by (cases m) auto
  show ?case using Suc.prems(1) Suc.IH[OF _ m(2)] unfolding m(1)
    by (auto simp: list_all_iff)
qed

lemma deref_append: "a < length h \<Longrightarrow> deref (h @ ext) a = deref h a"
  by (simp add: deref_def nth_append)

lemma useFree_append: "useFree n h a \<Longrightarrow> useFree n (h @ ext) a"
proof (induction n arbitrary: a)
  case 0
  then show ?case by simp
next
  case (Suc n)
  then show ?case by (auto simp: deref_append list_all_iff)
qed

lemma useFree_list_max:
  "list_all (\<lambda>a. \<exists>n. useFree n h a) as \<Longrightarrow> \<exists>n. list_all (useFree n h) as"
proof (induction as)
  case Nil
  show ?case by simp
next
  case (Cons a as)
  then obtain n1 n2 where "useFree n1 h a" "list_all (useFree n2 h) as" by auto
  then have "useFree (max n1 n2) h a" "list_all (useFree (max n1 n2) h) as"
    using useFree_deeper[of n1 h _ "max n1 n2"] useFree_deeper[of n2 h _ "max n1 n2"]
    by (auto simp: list_all_iff)
  then show ?case by auto
qed

lemma storeRule_useFree:
  "noUses r \<longrightarrow> (\<forall>a h'. storeRule r h = (a, h') \<longrightarrow>
        (\<exists>ext. h' = h @ ext) \<and> (\<exists>n. useFree n h' a))"
  and storeRules_useFree:
  "noUsesIn rs \<longrightarrow> (\<forall>as h'. storeRules rs h = (as, h') \<longrightarrow>
        (\<exists>ext. h' = h @ ext) \<and> (\<exists>n. list_all (useFree n h') as))"
proof (induction r h and rs h rule: storeRule_storeRules.induct)
  case (1 sel cls decls us kids h)
  show ?case
  proof (intro impI allI)
    fix a h'
    assume nu: "noUses (StyleRule sel cls decls us kids)"
      and st: "storeRule (StyleRule sel cls decls us kids) h = (a, h')"
    obtain ks h1 where k: "storeRules kids h = (ks, h1)" by (cases "storeRules kids h")
    from 1 nu k obtain ext n where e: "h1 = h @ ext" and n: "list_all (useFree n h1) ks"
      by auto
    have a: "a = length h1" and h': "h' = h1 @ [RuleObject sel cls decls us ks]"
      using st k by simp_all
    have "useFree (Suc n) h' a"
      using nu n unfolding a h'
      by (auto simp: deref_def list_all_iff intro: useFree_append)
    then have 1: "\<exists>n. useFree n h' a" by (rule exI)
    have 2: "\<exists>ext. h' = h @ ext" using e h' by simp
    show "(\<exists>ext. h' = h @ ext) \<and> (\<exists>n. useFree n h' a)"
      using 1 2 by (rule conjI[rotated])
  qed
next
  case (2 h)
  show ?case by simp
next
  case (3 r rs h)
  show ?case
  proof (intro impI allI)
    fix as h'
    assume nu: "noUsesIn (r # rs)" and st: "storeRules (r # rs) h = (as, h')"
    obtain a h1 where s1: "storeRule r h = (a, h1)" by (cases "storeRule r h")
    obtain as' h2 where s2: "storeRules rs h1 = (as', h2)" by (cases "storeRules rs h1")
    from 3(1) nu s1 obtain e1 n1 where e1: "h1 = h @ e1" and u1: "useFree n1 h1 a" by auto
    from 3(2)[OF s1[symmetric]] nu s2 obtain e2 n2 where e2: "h2 = h1 @ e2"
      and u2: "list_all (useFree n2 h2) as'" by auto
    have as: "as = a # as'" and h': "h' = h2" using st s1 s2 by simp_all
    have "useFree n1 h2 a" using u1 e2 useFree_append by simp
    then have "list_all (\<lambda>a. \<exists>n. useFree n h2 a) (a # as')"
      using u2 by (auto simp: list_all_iff)
    from useFree_list_max[OF this] have 1: "\<exists>n. list_all (useFree n h') as"
      unfolding as h' .
    have 2: "\<exists>ext. h' = h @ ext" using e1 e2 h' by simp
    show "(\<exists>ext. h' = h @ ext) \<and> (\<exists>n. list_all (useFree n h') as)"
      using 1 2 by (rule conjI[rotated])
  qed
qed

text \<open>
  Claim C8. When no rule of a tree has a use left, at any depth, the resolution pass
  over the tree returns and leaves the store as it is: every object keeps its selector,
  classes, declarations and children, and nothing is warned or recorded. This holds for
  \<open>resolveUsesInRules\<close> with any registry, for \<open>resolveDirectives\<close> on a result whose
  rules, exports and loaded files have no use left, and for the objects of any parsed
  tree without uses.
\<close>

theorem C8_resolution_idempotent:
  "(list_all (useFree n (objects st)) roots \<longrightarrow>
      (\<exists>N. \<forall>fuel\<ge>N. resolveUsesInRules fuel env (Fixed roots) 0 st = Some st))
   \<and> (list_all (useFree n h) roots \<and> list_all (useFree n h) exps
        \<and> (\<forall>p. list_all (useFree n h) (files p)) \<longrightarrow>
      (\<exists>N. \<forall>fuel\<ge>N. \<exists>st'. resolveDirectives fuel res files d roots exps imps h = Some st'
                         \<and> objects st' = h))
   \<and> (noUsesIn rs \<and> storeRules rs before = (as, objects stored) \<longrightarrow>
      (\<exists>N. \<forall>fuel\<ge>N. resolveUsesInRules fuel env (Fixed as) 0 stored = Some stored))"
proof (intro conjI impI)
  assume "list_all (useFree n (objects st)) roots"
  then have "list_all (useFree n (objects st)) (drop 0 (readArray (objects st) (Fixed roots)))"
    by simp
  then show "\<exists>N. \<forall>fuel\<ge>N. resolveUsesInRules fuel env (Fixed roots) 0 st = Some st"
    by (rule resolveUsesInRules_useFree)
next
  assume "list_all (useFree n h) roots \<and> list_all (useFree n h) exps
        \<and> (\<forall>p. list_all (useFree n h) (files p))"
  then obtain N where
    "\<forall>fuel\<ge>N. \<exists>st. resolveDirectives fuel res files d roots exps imps h = Some st
                         \<and> objects st = h \<and> resolving st = []"
    using resolveDirectives_useFree[of n h roots exps files res d imps] by blast
  then show "\<exists>N. \<forall>fuel\<ge>N. \<exists>st'. resolveDirectives fuel res files d roots exps imps h = Some st'
                         \<and> objects st' = h"
    by blast
next
  assume a: "noUsesIn rs \<and> storeRules rs before = (as, objects stored)"
  then obtain m where "list_all (useFree m (objects stored)) as"
    using storeRules_useFree[of rs before] by blast
  then have "list_all (useFree m (objects stored)) (drop 0 (readArray (objects stored) (Fixed as)))"
    by simp
  then show "\<exists>N. \<forall>fuel\<ge>N. resolveUsesInRules fuel env (Fixed as) 0 stored = Some stored"
    by (rule resolveUsesInRules_useFree)
qed

theorem C8_resolution_idempotent_witness:
  "noUsesIn exResolved
   \<and> storeRules exResolved [RuleObject ''btn'' [''px-4''] [] [] []]
     = ([4],
        [RuleObject ''btn'' [''px-4''] [] [] [],
         RuleObject ''span'' [] [] [] [],
         RuleObject ''> div'' [''mt-2''] [] [] [1],
         RuleObject ''p'' [''text-sm''] [] [] [],
         RuleObject ''&'' [''flex'', ''p-4''] [''color: red;''] [] [2, 3]])
   \<and> (\<exists>N. \<forall>fuel\<ge>N.
         resolveUsesInRules fuel exEnv (Fixed [4]) 0
           \<lparr>objects = snd (storeRules exResolved [RuleObject ''btn'' [''px-4''] [] [] []]),
            resolving = [], deps = [], warned = []\<rparr>
         = Some \<lparr>objects = snd (storeRules exResolved [RuleObject ''btn'' [''px-4''] [] [] []]),
                 resolving = [], deps = [], warned = []\<rparr>)
   \<and> resolveUsesInRules 10 exEnv (Fixed [4]) 0
        \<lparr>objects = snd (storeRules exResolved [RuleObject ''btn'' [''px-4''] [] [] []]),
         resolving = [], deps = [], warned = []\<rparr>
      = Some \<lparr>objects = snd (storeRules exResolved [RuleObject ''btn'' [''px-4''] [] [] []]),
              resolving = [], deps = [], warned = []\<rparr>
   \<and> resolveDirectives 10 noPath noFiles ''/src'' [4] [0] []
        (snd (storeRules exResolved [RuleObject ''btn'' [''px-4''] [] [] []]))
      = Some \<lparr>objects = snd (storeRules exResolved [RuleObject ''btn'' [''px-4''] [] [] []]),
              resolving = [], deps = [], warned = []\<rparr>"
proof -
  let ?h0 = "[RuleObject ''btn'' [''px-4''] [] [] []]"
  let ?st = "\<lparr>objects = snd (storeRules exResolved ?h0), resolving = [], deps = [],
              warned = []\<rparr>"
  have n: "noUsesIn exResolved" by (simp add: exResolved_def)
  have s: "storeRules exResolved ?h0
     = ([4],
        [RuleObject ''btn'' [''px-4''] [] [] [],
         RuleObject ''span'' [] [] [] [],
         RuleObject ''> div'' [''mt-2''] [] [] [1],
         RuleObject ''p'' [''text-sm''] [] [] [],
         RuleObject ''&'' [''flex'', ''p-4''] [''color: red;''] [] [2, 3]])"
    by (simp add: exResolved_def)
  have s': "storeRules exResolved ?h0 = ([4], objects ?st)" using s by simp
  have e: "\<exists>N. \<forall>fuel\<ge>N. resolveUsesInRules fuel exEnv (Fixed [4]) 0 ?st = Some ?st"
    using C8_resolution_idempotent[where rs = exResolved and before = ?h0 and as = "[4]"
            and stored = ?st and env = exEnv] n s'
    by blast
  have v: "resolveUsesInRules 10 exEnv (Fixed [4]) 0 ?st = Some ?st"
    unfolding s by code_simp
  have w: "resolveDirectives 10 noPath noFiles ''/src'' [4] [0] []
             (snd (storeRules exResolved ?h0)) = Some ?st"
    unfolding s by code_simp
  show ?thesis using n s e v w by blast
qed

section \<open>Circular uses\<close>

lemma lookupBlock_keeps:
  "lookupBlock env b t use st = (blk, st1) \<Longrightarrow>
   resolving st1 = resolving st \<and> objects st1 = objects st
   \<and> filter isCircularWarning (warned st1) = filter isCircularWarning (warned st)"
  by (auto simp: lookupBlock_def Let_def warn_def isCircularWarning_def
           split: option.splits if_splits)

lemma resolveUseLoop_never_circular:
  "resolving st = [] \<Longrightarrow> resolveUseLoop fuel env b t us st = Some st'
   \<Longrightarrow> resolving st' = []
       \<and> filter isCircularWarning (warned st') = filter isCircularWarning (warned st)"
proof (induction us arbitrary: st)
  case Nil
  then show ?case by simp
next
  case (Cons use rest)
  obtain blk st1 where l: "lookupBlock env b t use st = (blk, st1)"
    by (cases "lookupBlock env b t use st")
  note k = lookupBlock_keeps[OF l]
  show ?case
  proof (cases blk)
    case None
    then have "resolveUseLoop fuel env b t rest st1 = Some st'"
      using Cons.prems l by (simp add: Let_def)
    from Cons.IH[OF _ this] k Cons.prems(1) show ?thesis by simp
  next
    case (Some block)
    let ?key = "cycleKey env use"
    let ?st2 = "st1\<lparr>resolving := setAdd ?key (resolving st1)\<rparr>"
    from Cons.prems l Some obtain h where
      i: "inlineBlock fuel (objects ?st2) t block = Some h"
      and r: "resolveUseLoop fuel env b t rest
                (?st2\<lparr>objects := h, resolving := setDelete ?key (resolving ?st2)\<rparr>) = Some st'"
      by (auto simp: Let_def split: option.splits)
    have e: "resolving (?st2\<lparr>objects := h, resolving := setDelete ?key (resolving ?st2)\<rparr>) = []"
      using k Cons.prems(1) by (simp add: setAdd_def setDelete_def)
    from Cons.IH[OF e r] k show ?thesis by simp
  qed
qed

lemma resolveUsesInRules_never_circular:
  "resolving st = [] \<Longrightarrow> resolveUsesInRules fuel env arr i st = Some st'
   \<Longrightarrow> resolving st' = []
       \<and> filter isCircularWarning (warned st') = filter isCircularWarning (warned st)"
proof (induction fuel arbitrary: arr i st st')
  case 0
  then show ?case by simp
next
  case (Suc fuel)
  let ?rs = "readArray (objects st) arr"
  show ?case
  proof (cases "i < length ?rs")
    case False
    then show ?thesis using Suc.prems by simp
  next
    case True
    let ?r = "?rs ! i"
    from Suc.prems(2) True obtain st1 st2 where
      a: "resolveUseLoop fuel env False ?r (obj_uses (deref (objects st) ?r)) st = Some st1"
      and b: "resolveUsesInRules fuel env (ChildrenOf ?r) 0
                (st1\<lparr>objects := clearUses (objects st1) ?r\<rparr>) = Some st2"
      and c: "resolveUsesInRules fuel env arr (i + 1) st2 = Some st'"
      by (auto simp: Let_def split: option.splits)
    note A = resolveUseLoop_never_circular[OF Suc.prems(1) a]
    have "resolving (st1\<lparr>objects := clearUses (objects st1) ?r\<rparr>) = []" using A by simp
    note B = Suc.IH[OF this b]
    note C = Suc.IH[OF conjunct1[OF B] c]
    show ?thesis using A B C by simp
  qed
qed

lemma resolveUsesInExport_never_circular:
  "resolving st = [] \<Longrightarrow> resolveUsesInExport fuel env e st = Some st'
   \<Longrightarrow> resolving st' = []
       \<and> filter isCircularWarning (warned st') = filter isCircularWarning (warned st)"
proof -
  assume r: "resolving st = []" and s: "resolveUsesInExport fuel env e st = Some st'"
  from s obtain st1 where
    a: "resolveUseLoop fuel env True e (obj_uses (deref (objects st) e)) st = Some st1"
    and b: "resolveUsesInRules fuel env (ChildrenOf e) 0
              (st1\<lparr>objects := clearUses (objects st1) e\<rparr>) = Some st'"
    by (auto simp: resolveUsesInExport_def split: option.splits)
  note A = resolveUseLoop_never_circular[OF r a]
  have "resolving (st1\<lparr>objects := clearUses (objects st1) e\<rparr>) = []" using A by simp
  from resolveUsesInRules_never_circular[OF this b] A show ?thesis by simp
qed

lemma resolveExports_never_circular:
  "resolveExports fuel env es st = Some st'
   \<Longrightarrow> filter isCircularWarning (warned st') = filter isCircularWarning (warned st)"
proof (induction es arbitrary: st)
  case Nil
  then show ?case by simp
next
  case (Cons e es)
  from Cons.prems obtain st1 where
    a: "resolveUsesInExport fuel env e (st\<lparr>resolving := []\<rparr>) = Some st1"
    and b: "resolveExports fuel env es st1 = Some st'"
    by (auto split: option.splits)
  have "resolving (st\<lparr>resolving := []\<rparr>) = []" by simp
  from resolveUsesInExport_never_circular[OF this a] Cons.IH[OF b] show ?case by simp
qed

lemma registerExports_never_circular:
  "filter isCircularWarning (snd (registerExports h es (reg, ws))) = filter isCircularWarning ws"
  by (induction es arbitrary: reg ws) (simp_all add: Let_def isCircularWarning_def)

lemma registerNames_never_circular:
  "filter isCircularWarning (snd (registerNames h src found nms (reg, ws)))
   = filter isCircularWarning ws"
  by (induction nms arbitrary: reg ws)
     (simp_all add: isCircularWarning_def split: option.splits)

lemma registerImports_never_circular:
  "filter isCircularWarning (snd (snd (registerImports h d res files imps (reg, ds, ws))))
   = filter isCircularWarning ws"
proof (induction imps arbitrary: reg ds ws)
  case Nil
  show ?case by simp
next
  case (Cons imp imps)
  let ?p = "res d (ImportDirective.from' imp)"
  obtain reg1 ws1 where
    n: "registerNames h (ImportDirective.from' imp) (files ?p) (ImportDirective.names imp) (reg, ws)
        = (reg1, ws1)" by (cases "registerNames h (ImportDirective.from' imp) (files ?p)
                                    (ImportDirective.names imp) (reg, ws)")
  have "filter isCircularWarning ws1 = filter isCircularWarning ws"
    using registerNames_never_circular[of h "ImportDirective.from' imp" "files ?p"
                                          "ImportDirective.names imp" reg ws] n by simp
  then show ?case using Cons[of reg1 "setAdd ?p ds" ws1] n by (simp add: Let_def)
qed

lemma resolveDirectives_never_circular:
  assumes "resolveDirectives fuel res files d roots exps imps h = Some st"
  shows "filter isCircularWarning (warned st) = []"
proof -
  obtain reg0 ws0 where r0: "registerExports h exps ([], []) = (reg0, ws0)"
    by (cases "registerExports h exps ([], [])")
  obtain reg ds ws where r1: "registerImports h d res files imps (reg0, [], ws0) = (reg, ds, ws)"
    by (cases "registerImports h d res files imps (reg0, [], ws0)")
  have w0: "filter isCircularWarning ws0 = []"
    using registerExports_never_circular[of h exps "[]" "[]"] r0 by simp
  have w: "filter isCircularWarning ws = []"
    using registerImports_never_circular[of h d res files imps reg0 "[]" ws0] r1 w0 by simp
  let ?env = "\<lparr>registry = reg, dir = d, resolvePath = res, fileExports = files\<rparr>"
  let ?st = "\<lparr>objects = h, resolving = [], deps = ds, warned = ws\<rparr>"
  from assms obtain st1 where
    a: "resolveExports fuel ?env (map snd reg) ?st = Some st1"
    and b: "resolveUsesInRules fuel ?env (Fixed roots) 0 (st1\<lparr>resolving := []\<rparr>) = Some st"
    by (auto simp: resolveDirectives_def r0 r1 Let_def split: option.splits)
  have "resolving (st1\<lparr>resolving := []\<rparr>) = []" by simp
  from resolveUsesInRules_never_circular[OF this b] resolveExports_never_circular[OF a] w
  show ?thesis by simp
qed

lemma cloneRule_extends:
  "cloneRule fuel h a = Some (c, h1) \<longrightarrow> (\<exists>ext. h1 = h @ ext)"
  and cloneRules_extends:
  "cloneRules fuel h cs = Some (cs', h2) \<longrightarrow> (\<exists>ext. h2 = h @ ext)"
proof (induction fuel h a and fuel h cs arbitrary: c h1 and cs' h2
       rule: cloneRule_cloneRules.induct)
  case (1 h a)
  show ?case by simp
next
  case (2 fuel h a)
  show ?case
  proof
    assume s: "cloneRule (Suc fuel) h a = Some (c, h1)"
    then obtain ks h' where k: "cloneRules fuel h (obj_children (deref h a)) = Some (ks, h')"
      by (auto simp: Let_def split: option.splits)
    from 2[OF refl, of ks h'] k obtain ext where "h' = h @ ext" by auto
    then show "\<exists>ext. h1 = h @ ext" using s k by (auto simp: Let_def)
  qed
next
  case (3 fuel h)
  show ?case by simp
next
  case (4 fuel h x xs)
  show ?case
  proof
    assume s: "cloneRules fuel h (x # xs) = Some (cs', h2)"
    then obtain x' h' where a: "cloneRule fuel h x = Some (x', h')"
      by (auto split: option.splits)
    from s a obtain xs' where b: "cloneRules fuel h' xs = Some (xs', h2)"
      by (auto split: option.splits)
    from 4(1)[of x' h'] a obtain e1 where e1: "h' = h @ e1" by auto
    from 4(2)[OF a refl, of xs' h2] b obtain e2 where "h2 = h' @ e2" by auto
    then show "\<exists>ext. h2 = h @ ext" using e1 by simp
  qed
qed

lemma pushClones_self_never_ends:
  "a < length h \<Longrightarrow> i < length (obj_children (deref h a)) \<Longrightarrow> pushClones fuel h a a i = None"
proof (induction fuel arbitrary: h i)
  case 0
  show ?case by simp
next
  case (Suc fuel)
  let ?kids = "obj_children (deref h a)"
  show ?case
  proof (cases "cloneRule fuel h (?kids ! i)")
    case None
    then show ?thesis using Suc.prems by (simp add: Let_def)
  next
    case (Some p)
    obtain c h1 where p: "p = (c, h1)" by (cases p)
    from cloneRule_extends[of fuel h "?kids ! i" c h1] Some p obtain ext where
      e: "h1 = h @ ext" by auto
    have d: "deref h1 a = deref h a" using e Suc.prems(1) by (simp add: deref_append)
    have l: "a < length (pushChild h1 a c)" using e Suc.prems(1) by (simp add: pushChild_def Let_def)
    have "deref (pushChild h1 a c) a
          = RuleObject (obj_label (deref h a)) (obj_classes (deref h a))
              (obj_declarations (deref h a)) (obj_uses (deref h a)) (?kids @ [c])"
      using e Suc.prems(1) d by (simp add: pushChild_def Let_def deref_def)
    then have "i + 1 < length (obj_children (deref (pushChild h1 a c) a))"
      using Suc.prems(2) by simp
    from Suc.IH[OF l this] show ?thesis
      using Suc.prems Some p by (simp add: Let_def)
  qed
qed

lemma self_use_never_ends:
  "resolveDirectives fuel noPath noFiles ''/src'' [] [1] [] exSelfStore = None"
proof -
  let ?env = "\<lparr>registry = [(''a'', Suc 0)], dir = ''/src'', resolvePath = noPath,
               fileExports = noFiles\<rparr>"
  let ?st = "\<lparr>objects = exSelfStore, resolving = [], deps = [], warned = []\<rparr>"
  let ?h = "pushDeclarations (pushClasses exSelfStore 1 (obj_classes (deref exSelfStore 1))) 1
              (obj_declarations
                 (deref (pushClasses exSelfStore 1 (obj_classes (deref exSelfStore 1))) 1))"
  have h: "?h = exSelfStore"
    by (simp add: exSelfStore_def pushDeclarations_def pushClasses_def deref_def Let_def)
  have "pushClones fuel exSelfStore 1 1 0 = None"
    by (rule pushClones_self_never_ends) (simp_all add: exSelfStore_def deref_def)
  then have "inlineBlock fuel exSelfStore 1 1 = None"
    unfolding inlineBlock_def Let_def h .
  then have i: "inlineBlock fuel exSelfStore (Suc 0) (Suc 0) = None" by simp
  have u: "obj_uses (deref exSelfStore (Suc 0)) = [UseDirective ''a'' None]"
    and n: "obj_label (deref exSelfStore (Suc 0)) = ''a''"
    by (simp_all add: exSelfStore_def deref_def)
  have l: "resolveUseLoop fuel ?env True (Suc 0) [UseDirective ''a'' None] ?st = None"
    by (simp add: cycleKey_def lookupBlock_def useFrom_def Let_def i)
  have e: "resolveUsesInExport fuel ?env (Suc 0) ?st = None"
  proof -
    have "resolveUsesInExport fuel ?env (Suc 0) ?st =
          (case resolveUseLoop fuel ?env True (Suc 0) [UseDirective ''a'' None] ?st of
             None \<Rightarrow> None
           | Some st1 \<Rightarrow>
               resolveUsesInRules fuel ?env (ChildrenOf (Suc 0)) 0
                 (st1\<lparr>objects := clearUses (objects st1) (Suc 0)\<rparr>))"
      by (simp add: resolveUsesInExport_def u del: resolveUseLoop.simps)
    then show ?thesis unfolding l by simp
  qed
  have "?st\<lparr>resolving := []\<rparr> = ?st" by simp
  then have x: "resolveExports fuel ?env [Suc 0] ?st = None"
    using e by (simp del: resolveUseLoop.simps)
  show ?thesis
    unfolding resolveDirectives_def using x
    by (simp add: n registrySet_def Let_def del: resolveExports.simps)
qed

text \<open>
  Claim C1, at the inputs where the program leaves it. The key of a use is added to the
  set of keys being resolved and deleted again with no call of the resolver in between,
  so the test for a key that is being resolved never holds. Two exports that use each
  other are resolved with no warning of a cycle: each takes the classes that the other
  has at the time. An export that uses itself and has a child never comes to an end:
  the loop over the children of the block appends to the array it runs over.
\<close>

theorem C1_circular_use:
  "parseStyleBlock 100 exCycle None
     = Some (ParseResult []
               [ExportBlock ''a'' [''x''] [] [UseDirective ''b'' None] [],
                ExportBlock ''b'' [''y''] [] [UseDirective ''a'' None] []] [], [])
   \<and> storeExports [ExportBlock ''a'' [''x''] [] [UseDirective ''b'' None] [],
                   ExportBlock ''b'' [''y''] [] [UseDirective ''a'' None] []] []
     = ([0, 1], exCycleStore)
   \<and> resolveDirectives 10 noPath noFiles ''/src'' [] [0, 1] [] exCycleStore
     = Some \<lparr>objects = [RuleObject ''a'' [''x'', ''y''] [] [] [],
                         RuleObject ''b'' [''y'', ''x'', ''y''] [] [] []],
             resolving = [], deps = [], warned = []\<rparr>
   \<and> parseStyleBlock 100 exSelf None
     = Some (ParseResult []
               [ExportBlock ''a'' [] [] [UseDirective ''a'' None]
                  [StyleRule ''div'' [''p''] [] [] []]] [], [])
   \<and> storeExports [ExportBlock ''a'' [] [] [UseDirective ''a'' None]
                     [StyleRule ''div'' [''p''] [] [] []]] []
     = ([1], exSelfStore)
   \<and> (\<forall>fuel. resolveDirectives fuel noPath noFiles ''/src'' [] [1] [] exSelfStore = None)"
proof -
  have p1: "parseStyleBlock 100 exCycle None
     = Some (ParseResult []
               [ExportBlock ''a'' [''x''] [] [UseDirective ''b'' None] [],
                ExportBlock ''b'' [''y''] [] [UseDirective ''a'' None] []] [], [])"
    by code_simp
  have s1: "storeExports [ExportBlock ''a'' [''x''] [] [UseDirective ''b'' None] [],
                   ExportBlock ''b'' [''y''] [] [UseDirective ''a'' None] []] []
     = ([0, 1], exCycleStore)"
    by (simp add: storeExport_def exCycleStore_def)
  have r1: "resolveDirectives 10 noPath noFiles ''/src'' [] [0, 1] [] exCycleStore
     = Some \<lparr>objects = [RuleObject ''a'' [''x'', ''y''] [] [] [],
                         RuleObject ''b'' [''y'', ''x'', ''y''] [] [] []],
             resolving = [], deps = [], warned = []\<rparr>"
    by code_simp
  have p2: "parseStyleBlock 100 exSelf None
     = Some (ParseResult []
               [ExportBlock ''a'' [] [] [UseDirective ''a'' None]
                  [StyleRule ''div'' [''p''] [] [] []]] [], [])"
    by code_simp
  have s2: "storeExports [ExportBlock ''a'' [] [] [UseDirective ''a'' None]
                     [StyleRule ''div'' [''p''] [] [] []]] []
     = ([1], exSelfStore)"
    by (simp add: storeExport_def exSelfStore_def)
  have r2: "\<forall>fuel. resolveDirectives fuel noPath noFiles ''/src'' [] [1] [] exSelfStore = None"
    using self_use_never_ends by blast
  show ?thesis by (intro conjI p1 s1 r1 p2 s2 r2)
qed

end
